theory Spec2Isabelle
  imports Main "HOL-Library.Word" "HOL-Library.Monad_Syntax"
begin

unbundle bit_operations_syntax

section \<open>Embedding of \<^verbatim>\<open>src/lib/zip-writer.js\<close>\<close>

subsection \<open>Bytes, typed arrays and DataView writes\<close>

text \<open>
  A \<^verbatim>\<open>Uint8Array\<close> is a list of bytes. A JavaScript string is a list of UTF-16 code
  units. Errors are values: the two errors the source raises itself, the errors the
  JavaScript run time raises (\<^verbatim>\<open>TypeError\<close>, \<^verbatim>\<open>URIError\<close>, \<^verbatim>\<open>RangeError\<close>),
  and an error raised by the external codec or processor.
\<close>

type_synonym byte = "8 word"
type_synonym uint8array = "byte list"
type_synonym jsstring = "16 word list"

datatype error =
    ERR_DUPLICATED_NAME
  | ERR_ZIP_FILE_COMMENT
  | TypeError
  | URIError
  | RangeError
  | PipelineError nat

text \<open>Readable literals: the code units of an ASCII string.\<close>

definition str :: "string \<Rightarrow> jsstring" where
  "str s = map of_char s"

text \<open>
  \<^verbatim>\<open>target.set(src, off)\<close> of a typed array copies \<open>src\<close> into \<open>target\<close> from index
  \<open>off\<close>; it raises \<^verbatim>\<open>RangeError\<close> (here \<open>None\<close>) when \<open>src\<close> does not fit.
\<close>

definition array_set :: "uint8array \<Rightarrow> byte list \<Rightarrow> nat \<Rightarrow> uint8array option" where
  "array_set arr src off =
     (if off + length src \<le> length arr
      then Some (take off arr @ src @ drop (off + length src) arr)
      else None)"

text \<open>
  The bytes of a number stored in an 8, 16 or 32 bit slot: the number is reduced modulo
  the width of the slot (\<^verbatim>\<open>ToUint8\<close>, \<^verbatim>\<open>ToUint16\<close>, \<^verbatim>\<open>ToUint32\<close>), negative numbers in
  two's complement.
\<close>

definition le16 :: "int \<Rightarrow> byte list" where
  "le16 v = [word_of_int v, word_of_int (drop_bit 8 v)]"

definition le32 :: "int \<Rightarrow> byte list" where
  "le32 v = [word_of_int v, word_of_int (drop_bit 8 v),
             word_of_int (drop_bit 16 v), word_of_int (drop_bit 24 v)]"

definition be16 :: "int \<Rightarrow> byte list" where
  "be16 v = rev (le16 v)"

definition be32 :: "int \<Rightarrow> byte list" where
  "be32 v = rev (le32 v)"

text \<open>
  \<^verbatim>\<open>DataView.setUint8/16/32(off, v, littleEndian)\<close>; big-endian when the flag is
  absent. Out of range is \<^verbatim>\<open>RangeError\<close> (\<open>None\<close>).
\<close>

definition setUint8 :: "uint8array \<Rightarrow> nat \<Rightarrow> int \<Rightarrow> uint8array option" where
  "setUint8 arr off v = array_set arr [word_of_int v] off"

definition setUint16 :: "uint8array \<Rightarrow> nat \<Rightarrow> int \<Rightarrow> bool \<Rightarrow> uint8array option" where
  "setUint16 arr off v littleEndian =
     array_set arr (if littleEndian then le16 v else be16 v) off"

definition setUint32 :: "uint8array \<Rightarrow> nat \<Rightarrow> int \<Rightarrow> bool \<Rightarrow> uint8array option" where
  "setUint32 arr off v littleEndian =
     array_set arr (if littleEndian then le32 v else be32 v) off"

text \<open>Reading a little-endian field back, as an archive reader does.\<close>

definition getUint16 :: "uint8array \<Rightarrow> nat \<Rightarrow> int" where
  "getUint16 arr off = uint (arr ! off) + 256 * uint (arr ! (off + 1))"

definition getUint32 :: "uint8array \<Rightarrow> nat \<Rightarrow> int" where
  "getUint32 arr off =
     uint (arr ! off) + 256 * uint (arr ! (off + 1))
       + 65536 * uint (arr ! (off + 2)) + 16777216 * uint (arr ! (off + 3))"

subsection \<open>JavaScript numbers under the bit operators\<close>

text \<open>
  \<^verbatim>\<open><<\<close> and \<^verbatim>\<open>|\<close> convert their operands with \<^verbatim>\<open>ToInt32\<close> and give a signed
  32 bit result; the shift count is taken modulo 32.
\<close>

definition ToInt32 :: "int \<Rightarrow> int" where
  "ToInt32 v = signed_take_bit 31 v"

definition js_shl :: "int \<Rightarrow> nat \<Rightarrow> int" where
  "js_shl a n = ToInt32 (push_bit (n mod 32) (ToInt32 a))"

definition js_or :: "int \<Rightarrow> int \<Rightarrow> int" where
  "js_or a b = ToInt32 a OR ToInt32 b"

subsection \<open>Strings\<close>

text \<open>
  \<^verbatim>\<open>String.prototype.trim\<close> removes white space and line terminators from both ends.
\<close>

definition is_white_space :: "16 word \<Rightarrow> bool" where
  "is_white_space c =
     (c \<in> set [0x9, 0xA, 0xB, 0xC, 0xD, 0x20, 0xA0, 0x1680,
                0x2000, 0x2001, 0x2002, 0x2003, 0x2004, 0x2005, 0x2006, 0x2007,
                0x2008, 0x2009, 0x200A, 0x2028, 0x2029, 0x202F, 0x205F, 0x3000, 0xFEFF])"

definition trim :: "jsstring \<Rightarrow> jsstring" where
  "trim s = rev (dropWhile is_white_space (rev (dropWhile is_white_space s)))"

text \<open>The UTF-8 bytes of one code point, each as a character code.\<close>

definition utf8 :: "nat \<Rightarrow> jsstring" where
  "utf8 cp =
     (if cp < 0x80 then [of_nat cp]
      else if cp < 0x800 then [of_nat (0xC0 + cp div 64), of_nat (0x80 + cp mod 64)]
      else if cp < 0x10000 then
        [of_nat (0xE0 + cp div 4096), of_nat (0x80 + cp div 64 mod 64), of_nat (0x80 + cp mod 64)]
      else
        [of_nat (0xF0 + cp div 262144), of_nat (0x80 + cp div 4096 mod 64),
         of_nat (0x80 + cp div 64 mod 64), of_nat (0x80 + cp mod 64)])"

text \<open>
  \<^verbatim>\<open>encodeUTF8(string) = unescape(encodeURIComponent(string))\<close>: the string whose
  characters are the UTF-8 bytes of the argument. \<^verbatim>\<open>encodeURIComponent\<close> raises
  \<^verbatim>\<open>URIError\<close> on a surrogate that is not part of a pair.
\<close>

fun encodeUTF8 :: "jsstring \<Rightarrow> error + jsstring" where
  "encodeUTF8 [] = Inr []"
| "encodeUTF8 (c # cs) =
     (if 0xDC00 \<le> c \<and> c \<le> 0xDFFF then Inl URIError
      else if 0xD800 \<le> c \<and> c \<le> 0xDBFF then
        (case cs of
           [] \<Rightarrow> Inl URIError
         | d # ds \<Rightarrow>
             if 0xDC00 \<le> d \<and> d \<le> 0xDFFF then
               (case encodeUTF8 ds of
                  Inl e \<Rightarrow> Inl e
                | Inr r \<Rightarrow>
                    Inr (utf8 (0x10000 + (unat c - 0xD800) * 1024 + (unat d - 0xDC00)) @ r))
             else Inl URIError)
      else
        (case encodeUTF8 cs of
           Inl e \<Rightarrow> Inl e
         | Inr r \<Rightarrow> Inr (utf8 (unat c) @ r)))"

text \<open>
  \<^verbatim>\<open>getBytes\<close> collects the character codes of a string. They are only ever counted
  and copied into a \<^verbatim>\<open>Uint8Array\<close>, so each is kept as the byte it is stored as.
\<close>

definition getBytes :: "jsstring \<Rightarrow> byte list" where
  "getBytes string = map ucast string"

subsection \<open>External collaborators\<close>

text \<open>
  Modelled from the spec: the output sink of \<^verbatim>\<open>data.js\<close>, which is not among the
  sources. \<^verbatim>\<open>init()\<close> is idempotent and lazy, \<^verbatim>\<open>writeUint8Array(bytes)\<close> appends,
  \<^verbatim>\<open>getData()\<close> returns the accumulated bytes. In this model a write to the
  sink does not fail: a sink whose write raises is outside the model.
\<close>

record sink =
  initialized :: bool
  data :: uint8array

definition Uint8ArrayWriter :: sink where
  "Uint8ArrayWriter = \<lparr>initialized = False, data = []\<rparr>"

definition init :: "sink \<Rightarrow> sink" where
  "init w = w\<lparr>initialized := True\<rparr>"

definition writeUint8Array :: "sink \<Rightarrow> uint8array \<Rightarrow> sink" where
  "writeUint8Array w array = w\<lparr>data := data w @ array\<rparr>"

definition getData :: "sink \<Rightarrow> uint8array" where
  "getData w = data w"

text \<open>
  Modelled from the spec: the content source, which after \<^verbatim>\<open>init()\<close> has a known
  \<^verbatim>\<open>size\<close>, and the processing pipeline (\<^verbatim>\<open>codec.js\<close>, \<^verbatim>\<open>processor.js\<close>), which
  consumes a content source and writes to the target sink, and returns
  \<^verbatim>\<open>{ length, signature }\<close> or raises. The pipeline is a parameter: the configuration
  of the writer stands for the pipeline it configures, a function from the codec options
  and the source to the outcome and the bytes written to the sink until then.
\<close>

record reader =
  reader_size :: nat
  reader_content :: uint8array

record process_result =
  result_length :: nat
  signature :: "int option"

record codec_options =
  codec_level :: "int option"
  outputPassword :: "jsstring option"
  outputSigned :: bool
  outputCompressed :: bool
  outputEncrypted :: bool

type_synonym config = "codec_options \<Rightarrow> reader \<Rightarrow> (error + process_result) \<times> uint8array"

subsection \<open>Options, dates and entry records\<close>

text \<open>
  The fields of a \<^verbatim>\<open>Date\<close> the encoder reads, in local time; \<open>getMonth\<close> counts from 0.
\<close>

record date =
  getFullYear :: int
  getMonth :: nat
  getDate :: nat
  getHours :: nat
  getMinutes :: nat
  getSeconds :: nat

record options =
  bufferedWrite :: bool
  directory :: bool
  password :: "jsstring option"
  level :: "int option"
  comment :: "jsstring option"
  extraField :: "uint8array option"
  lastModDate :: "date option"
  version :: "nat option"

record file_entry =
  headerArray :: uint8array
  fe_directory :: bool
  filename :: "byte list"
  fe_comment :: "byte list"
  fe_extraField :: uint8array
  fe_length :: nat
  fe_offset :: "nat option"

subsection \<open>\<^verbatim>\<open>createFileEntry\<close>\<close>

text \<open>
  Lines 120 to 132: the values \<^verbatim>\<open>createFileEntry\<close> derives from the options. \<open>encrypted\<close>
  is the truth value of the constant \<^verbatim>\<open>outputPassword\<close>: a password that is defined and
  not empty. \<^verbatim>\<open>options.comment || ""\<close> is the empty string for an absent comment.
\<close>

definition entry_date :: "options \<Rightarrow> date \<Rightarrow> date" where
  "entry_date opts now = (case lastModDate opts of Some d \<Rightarrow> d | None \<Rightarrow> now)"

definition encrypted :: "options \<Rightarrow> bool" where
  "encrypted opts = (case password opts of Some p \<Rightarrow> p \<noteq> [] | None \<Rightarrow> False)"

definition compressed :: "options \<Rightarrow> bool" where
  "compressed opts = (level opts \<noteq> Some 0 \<and> \<not> directory opts)"

definition output_signed :: "options \<Rightarrow> bool" where
  "output_signed opts = (case password opts of Some p \<Rightarrow> p = [] | None \<Rightarrow> True)"

definition comment_text :: "options \<Rightarrow> jsstring" where
  "comment_text opts = (case comment opts of Some c \<Rightarrow> c | None \<Rightarrow> [])"

text \<open>Lines 164 to 171: the options handed to \<^verbatim>\<open>createCodec\<close>.\<close>

definition createCodec_options :: "options \<Rightarrow> codec_options" where
  "createCodec_options opts =
     \<lparr>codec_level = level opts, outputPassword = password opts,
      outputSigned = output_signed opts, outputCompressed = compressed opts,
      outputEncrypted = encrypted opts\<rparr>"

text \<open>Lines 149 and 150: the packed time and date, as the numbers handed to \<^verbatim>\<open>setUint16\<close>.\<close>

definition dos_time :: "date \<Rightarrow> int" where
  "dos_time d =
     js_or (js_shl (js_or (js_shl (int (getHours d)) 6) (int (getMinutes d))) 5)
           (int (getSeconds d div 2))"

definition dos_date :: "date \<Rightarrow> int" where
  "dos_date d =
     js_or (js_shl (js_or (js_shl (getFullYear d - 1980) 4) (int (getMonth d + 1))) 5)
           (int (getDate d))"

text \<open>
  Lines 131 and 136 to 139: the extra field of the entry, which for an encrypted entry is
  the fixed AES extra field.
\<close>

definition aes_extraField :: "bool \<Rightarrow> uint8array" where
  "aes_extraField cmp =
     (let extraField = [0x01, 0x99, 0x07, 0x00, 0x02, 0x00, 0x41, 0x45, 0x03, 0x00, 0x00]
      in if cmp then extraField[9 := 0x08] else extraField)"

definition entry_extraField :: "options \<Rightarrow> uint8array" where
  "entry_extraField opts =
     (if encrypted opts then aes_extraField (compressed opts)
      else (case extraField opts of Some x \<Rightarrow> x | None \<Rightarrow> []))"

text \<open>Lines 121 and 133 to 153: the 26 bytes of the header as first written.\<close>

definition init_headerArray :: "options \<Rightarrow> date \<Rightarrow> nat \<Rightarrow> nat \<Rightarrow> uint8array option" where
  "init_headerArray opts d filename_length extraFieldLength =
     do {
       h \<leftarrow> (if encrypted opts then
               do {
                 h \<leftarrow> setUint32 (replicate 26 0) 0 0x33000900 False;
                 setUint8 h 4 0x63
               }
             else
               do {
                 h \<leftarrow> setUint32 (replicate 26 0) 0 0x14000808 False;
                 h \<leftarrow> (case version opts of
                         Some v \<Rightarrow> if v \<noteq> 0 then setUint8 h 0 (int v) else Some h
                       | None \<Rightarrow> Some h);
                 if compressed opts then setUint16 h 4 0x0800 False else Some h
               });
       h \<leftarrow> setUint16 h 6 (dos_time d) True;
       h \<leftarrow> setUint16 h 8 (dos_date d) True;
       h \<leftarrow> setUint16 h 22 (int filename_length) True;
       setUint16 h 24 (int extraFieldLength) True
     }"

text \<open>Lines 154 to 159: the local file header block.\<close>

definition init_fileDataArray ::
  "uint8array \<Rightarrow> byte list \<Rightarrow> uint8array \<Rightarrow> uint8array option" where
  "init_fileDataArray h fname extra =
     do {
       a \<leftarrow> setUint32 (replicate (30 + length fname + length extra) 0) 0 0x504b0304 False;
       a \<leftarrow> array_set a h 4;
       a \<leftarrow> array_set a fname 30;
       array_set a extra (30 + length fname)
     }"

text \<open>
  Lines 174 to 186: the footer, and the same fields patched into the header the entry
  record keeps. The second argument is the content source and the result of the
  pipeline, when there was a content source. The result is the pair of header and footer.
\<close>

definition patch_footer ::
  "uint8array \<Rightarrow> (reader \<times> process_result) option \<Rightarrow> bool \<Rightarrow> (uint8array \<times> uint8array) option" where
  "patch_footer h processed enc =
     do {
       f \<leftarrow> setUint32 (replicate 16 0) 0 0x504b0708 False;
       (case processed of
          None \<Rightarrow> Some (h, f)
        | Some (rd, result) \<Rightarrow>
            do {
              (h, f) \<leftarrow> (case signature result of
                           Some sg \<Rightarrow>
                             if \<not> enc then
                               do {
                                 h \<leftarrow> setUint32 h 10 sg True;
                                 f \<leftarrow> setUint32 f 4 sg True;
                                 Some (h, f)
                               }
                             else Some (h, f)
                         | None \<Rightarrow> Some (h, f));
              h \<leftarrow> setUint32 h 14 (int (result_length result)) True;
              f \<leftarrow> setUint32 f 8 (int (result_length result)) True;
              h \<leftarrow> setUint32 h 18 (int (reader_size rd)) True;
              f \<leftarrow> setUint32 f 12 (int (reader_size rd)) True;
              Some (h, f)
            })
     }"

text \<open>
  \<^verbatim>\<open>createFileEntry(name, reader, writer, config, options)\<close>, with the clock that
  \<^verbatim>\<open>new Date()\<close> reads as one more argument. It returns the entry record or the error
  raised, and the sink as it has been written to until then. The header array is shared
  between the entry record and the local variable, so the record holds the header as
  patched at the end (line 188 sets the length, the caller sets the offset).
\<close>

definition createFileEntry ::
  "jsstring \<Rightarrow> reader option \<Rightarrow> sink \<Rightarrow> config \<Rightarrow> options \<Rightarrow> date \<Rightarrow> (error + file_entry) \<times> sink" where
  "createFileEntry name rd w cfg opts now =
     (case encodeUTF8 name of
        Inl e \<Rightarrow> (Inl e, w)
      | Inr utf8_name \<Rightarrow>
     (case encodeUTF8 (comment_text opts) of
        Inl e \<Rightarrow> (Inl e, w)
      | Inr utf8_comment \<Rightarrow>
     (let fname = getBytes utf8_name;
          extra = entry_extraField opts
      in
     (case init_headerArray opts (entry_date opts now) (length fname) (length extra) of
        None \<Rightarrow> (Inl RangeError, w)
      | Some h \<Rightarrow>
     (case init_fileDataArray h fname extra of
        None \<Rightarrow> (Inl RangeError, w)
      | Some fileDataArray \<Rightarrow>
     (let w1 = writeUint8Array w fileDataArray;
          fileEntry = (\<lambda>h n. \<lparr>headerArray = h, fe_directory = directory opts, filename = fname,
                               fe_comment = getBytes utf8_comment, fe_extraField = extra,
                               fe_length = length fileDataArray + n + 16, fe_offset = None\<rparr>)
      in
     (case rd of
        None \<Rightarrow>
          (case patch_footer h None (encrypted opts) of
             None \<Rightarrow> (Inl RangeError, w1)
           | Some (h', footerArray) \<Rightarrow>
               (Inr (fileEntry h' 0), writeUint8Array w1 footerArray))
      | Some r \<Rightarrow>
          (case cfg (createCodec_options opts) r of
             (Inl e, written) \<Rightarrow> (Inl e, writeUint8Array w1 written)
           | (Inr result, written) \<Rightarrow>
               (let w2 = writeUint8Array w1 written in
                case patch_footer h (Some (r, result)) (encrypted opts) of
                  None \<Rightarrow> (Inl RangeError, w2)
                | Some (h', footerArray) \<Rightarrow>
                    (Inr (fileEntry h' (result_length result)),
                     writeUint8Array w2 footerArray))))))))))"

subsection \<open>The class \<^verbatim>\<open>ZipWriter\<close>\<close>

text \<open>
  \<^verbatim>\<open>this.files\<close> is a \<^verbatim>\<open>Map\<close>: keys are unique and keep their insertion order, so it
  is an association list. A value is an entry record or \<^verbatim>\<open>null\<close>, the placeholder
  (\<open>None\<close>). \<^verbatim>\<open>Map.prototype.set\<close> replaces the value of a key that is present, in
  place, and appends a new key.
\<close>

type_synonym files_map = "(jsstring \<times> file_entry option) list"

definition map_has :: "files_map \<Rightarrow> jsstring \<Rightarrow> bool" where
  "map_has m k = (k \<in> set (map fst m))"

fun map_set :: "files_map \<Rightarrow> jsstring \<Rightarrow> file_entry option \<Rightarrow> files_map" where
  "map_set [] k v = [(k, v)]"
| "map_set ((k', v') # m) k v =
     (if k' = k then (k, v) # m else (k', v') # map_set m k v)"

record zip_writer =
  writer :: sink
  config :: config
  files :: files_map
  offset :: nat

text \<open>The constructor, lines 40 to 45.\<close>

definition ZipWriter :: "sink \<Rightarrow> config \<Rightarrow> zip_writer" where
  "ZipWriter w cfg = \<lparr>writer = w, config = cfg, files = [], offset = 0\<rparr>"

text \<open>Lines 58 to 61: the name as it is stored.\<close>

definition normalize_name :: "jsstring \<Rightarrow> options \<Rightarrow> jsstring" where
  "normalize_name name opts =
     (let name = trim name
      in if directory opts \<and> (name = [] \<or> last name \<noteq> 0x2F) then name @ [0x2F] else name)"

text \<open>
  \<^verbatim>\<open>add(name, reader, options)\<close>, lines 47 to 73. The result is the error raised, if
  any, and the writer as the call leaves it. The entry record is shared between the
  map and the local variable \<^verbatim>\<open>fileEntry\<close>, so the assignment of line 71 is an update
  of the record in the map.
\<close>

definition add ::
  "zip_writer \<Rightarrow> jsstring \<Rightarrow> reader option \<Rightarrow> options \<Rightarrow> date \<Rightarrow> error option \<times> zip_writer" where
  "add this name rd opts now =
     (let this = (if bufferedWrite opts \<or> initialized (writer this) then this
                  else this\<lparr>writer := init (writer this)\<rparr>);
          w = (if bufferedWrite opts then init Uint8ArrayWriter else writer this);
          name = normalize_name name opts
      in
      if map_has (files this) name then (Some ERR_DUPLICATED_NAME, this)
      else
        (let this = this\<lparr>files := map_set (files this) name None\<rparr> in
         case createFileEntry name rd w (config this) opts now of
           (Inl e, w') \<Rightarrow>
             (Some e, if bufferedWrite opts then this else this\<lparr>writer := w'\<rparr>)
         | (Inr fileEntry, w') \<Rightarrow>
             (let this = this\<lparr>files := map_set (files this) name (Some fileEntry)\<rparr>;
                  this = (if bufferedWrite opts
                          then this\<lparr>writer := writeUint8Array (writer this) (getData w')\<rparr>
                          else this\<lparr>writer := w'\<rparr>);
                  fileEntry = fileEntry\<lparr>fe_offset := Some (offset this)\<rparr>;
                  this = this\<lparr>files := map_set (files this) name (Some fileEntry)\<rparr>
              in (None, this\<lparr>offset := offset this + fe_length fileEntry\<rparr>))))"

text \<open>A sequence of \<^verbatim>\<open>add\<close> calls, each awaited before the next; it stops at the first error.\<close>

type_synonym add_call = "jsstring \<times> reader option \<times> options \<times> date"

fun add_all :: "zip_writer \<Rightarrow> add_call list \<Rightarrow> error option \<times> zip_writer" where
  "add_all this [] = (None, this)"
| "add_all this ((name, rd, opts, now) # calls) =
     (case add this name rd opts now of
        (Some e, this') \<Rightarrow> (Some e, this')
      | (None, this') \<Rightarrow> add_all this' calls)"

text \<open>
  \<^verbatim>\<open>close(comment)\<close>, lines 75 to 113. The first loop (lines 77 to 79) sums the sizes
  of the records; reading \<^verbatim>\<open>file.filename\<close> of a placeholder raises \<^verbatim>\<open>TypeError\<close>.
\<close>

definition record_length :: "file_entry \<Rightarrow> nat" where
  "record_length file =
     46 + length (filename file) + length (fe_comment file) + length (fe_extraField file)"

fun close_length :: "files_map \<Rightarrow> nat \<Rightarrow> error + nat" where
  "close_length [] directoryDataLength = Inr directoryDataLength"
| "close_length ((k, None) # m) directoryDataLength = Inl TypeError"
| "close_length ((k, Some file) # m) directoryDataLength =
     close_length m (directoryDataLength + record_length file)"

text \<open>The body of the second loop, lines 83 to 93: one record written at \<open>off\<close>.\<close>

definition write_record :: "uint8array \<Rightarrow> nat \<Rightarrow> file_entry \<Rightarrow> uint8array option" where
  "write_record a off file =
     do {
       a \<leftarrow> setUint32 a off 0x504b0102 False;
       a \<leftarrow> setUint16 a (off + 4) 0x1400 False;
       a \<leftarrow> array_set a (headerArray file) (off + 6);
       a \<leftarrow> setUint16 a (off + 32) (int (length (fe_comment file))) True;
       a \<leftarrow> (if fe_directory file then setUint8 a (off + 38) 0x10 else Some a);
       a \<leftarrow> setUint32 a (off + 42) (case fe_offset file of Some n \<Rightarrow> int n | None \<Rightarrow> 0) True;
       a \<leftarrow> array_set a (filename file) (off + 46);
       a \<leftarrow> array_set a (fe_extraField file) (off + 46 + length (filename file));
       array_set a (fe_comment file)
         (off + 46 + length (filename file) + length (fe_extraField file))
     }"

text \<open>The second loop, lines 82 to 95: the array and the offset after the last record.\<close>

fun close_records :: "files_map \<Rightarrow> uint8array \<Rightarrow> nat \<Rightarrow> error + uint8array \<times> nat" where
  "close_records [] a off = Inr (a, off)"
| "close_records ((k, None) # m) a off = Inl TypeError"
| "close_records ((k, Some file) # m) a off =
     (case write_record a off file of
        None \<Rightarrow> Inl RangeError
      | Some a' \<Rightarrow> close_records m a' (off + record_length file))"

text \<open>Lines 96 to 100: the fixed fields of the trailer.\<close>

definition write_trailer :: "uint8array \<Rightarrow> nat \<Rightarrow> nat \<Rightarrow> nat \<Rightarrow> nat \<Rightarrow> uint8array option" where
  "write_trailer a off files_size directoryDataLength this_offset =
     do {
       a \<leftarrow> setUint32 a off 0x504b0506 False;
       a \<leftarrow> setUint16 a (off + 8) (int files_size) True;
       a \<leftarrow> setUint16 a (off + 10) (int files_size) True;
       a \<leftarrow> setUint32 a (off + 12) (int directoryDataLength) True;
       setUint32 a (off + 16) (int this_offset) True
     }"

text \<open>
  \<^verbatim>\<open>close\<close> returns the data of the sink, or the error raised; every error is raised
  before the first write, so a failed call leaves the writer as it was.
\<close>

definition close :: "zip_writer \<Rightarrow> uint8array option \<Rightarrow> error + uint8array \<times> zip_writer" where
  "close this cmt =
     (case close_length (files this) 0 of
        Inl e \<Rightarrow> Inl e
      | Inr directoryDataLength \<Rightarrow>
     (case close_records (files this) (replicate (directoryDataLength + 22) 0) 0 of
        Inl e \<Rightarrow> Inl e
      | Inr (a, off) \<Rightarrow>
     (case write_trailer a off (length (files this)) directoryDataLength (offset this) of
        None \<Rightarrow> Inl RangeError
      | Some a \<Rightarrow>
     (let has_comment = (case cmt of Some c \<Rightarrow> c \<noteq> [] | None \<Rightarrow> False);
          c = (case cmt of Some c \<Rightarrow> c | None \<Rightarrow> [])
      in
      if has_comment \<and> \<not> length c \<le> 65536 then Inl ERR_ZIP_FILE_COMMENT
      else
        (case (if has_comment then setUint16 a (off + 20) (int (length c)) True else Some a) of
           None \<Rightarrow> Inl RangeError
         | Some directoryDataArray \<Rightarrow>
             (let w = writeUint8Array (writer this) directoryDataArray;
                  w = (if has_comment then writeUint8Array w c else w)
              in Inr (getData w, this\<lparr>writer := w\<rparr>)))))))"

subsection \<open>The layouts the writes produce\<close>

text \<open>
  What the sequences of writes above leave in their arrays, as plain concatenations. The
  lemmas below prove each equal to the array the code builds; the theorems are stated
  with them.

  The first six bytes of the header (version needed, flags, method), lines 133 to 148.
\<close>

definition header_start :: "options \<Rightarrow> byte list" where
  "header_start opts =
     (if encrypted opts then [0x33, 0x00, 0x09, 0x00, 0x63, 0x00]
      else [case version opts of Some v \<Rightarrow> if v \<noteq> 0 then of_nat v else 0x14 | None \<Rightarrow> 0x14,
            0x00, 0x08, 0x08] @ (if compressed opts then [0x08, 0x00] else [0x00, 0x00]))"

text \<open>
  The checksum, the compressed length and the original size, as lines 177 to 186 write
  them to the footer and to the header.
\<close>

definition descriptor_fields :: "(reader \<times> process_result) option \<Rightarrow> bool \<Rightarrow> byte list" where
  "descriptor_fields processed enc =
     (case processed of
        None \<Rightarrow> replicate 12 0
      | Some (rd, result) \<Rightarrow>
          (case signature result of
             Some sg \<Rightarrow> if enc then replicate 4 0 else le32 sg
           | None \<Rightarrow> replicate 4 0)
          @ le32 (int (result_length result)) @ le32 (int (reader_size rd)))"

definition entry_header ::
  "options \<Rightarrow> date \<Rightarrow> nat \<Rightarrow> nat \<Rightarrow> (reader \<times> process_result) option \<Rightarrow> byte list" where
  "entry_header opts d filename_length extraFieldLength processed =
     header_start opts @ le16 (dos_time d) @ le16 (dos_date d)
       @ descriptor_fields processed (encrypted opts)
       @ le16 (int filename_length) @ le16 (int extraFieldLength)"

text \<open>One record of the central directory, lines 83 to 93.\<close>

definition central_record :: "file_entry \<Rightarrow> byte list" where
  "central_record file =
     be32 0x504b0102 @ be16 0x1400 @ headerArray file
       @ le16 (int (length (fe_comment file))) @ replicate 4 0
       @ [if fe_directory file then 0x10 else 0x00] @ replicate 3 0
       @ le32 (case fe_offset file of Some n \<Rightarrow> int n | None \<Rightarrow> 0)
       @ filename file @ fe_extraField file @ fe_comment file"

text \<open>The 22 bytes of the trailer, lines 96 to 103.\<close>

definition end_of_central_directory :: "nat \<Rightarrow> nat \<Rightarrow> nat \<Rightarrow> nat \<Rightarrow> byte list" where
  "end_of_central_directory files_size directoryDataLength this_offset comment_length =
     be32 0x504b0506 @ replicate 4 0 @ le16 (int files_size) @ le16 (int files_size)
       @ le32 (int directoryDataLength) @ le32 (int this_offset) @ le16 (int comment_length)"

text \<open>
  The packed time and date as the documentation gives them, on unbounded integers:
  time = \<open>((hour<<6 | minute)<<5) | (second/2)\<close>,
  date = \<open>(((year-1980)<<4 | month)<<5) | day\<close>, the month counted from 1.
\<close>

definition documented_time :: "nat \<Rightarrow> nat \<Rightarrow> nat \<Rightarrow> int" where
  "documented_time hour minute second =
     push_bit 5 (push_bit 6 (int hour) OR int minute) OR int (second div 2)"

definition documented_date :: "int \<Rightarrow> nat \<Rightarrow> nat \<Rightarrow> int" where
  "documented_date year month day =
     push_bit 5 (push_bit 4 (year - 1980) OR int month) OR int day"

text \<open>
  The offsets of a list of entries chain from \<open>start\<close> to \<open>final\<close>: each entry begins
  where the one before it ends.
\<close>

fun chained :: "nat \<Rightarrow> file_entry list \<Rightarrow> nat \<Rightarrow> bool" where
  "chained start [] final = (start = final)"
| "chained start (e # es) final =
     (fe_offset e = Some start \<and> chained (start + fe_length e) es final)"

text \<open>
  A writer all of whose entries are complete records \<open>es\<close>, in the order of the map,
  none a placeholder.
\<close>

definition complete :: "zip_writer \<Rightarrow> file_entry list \<Rightarrow> bool" where
  "complete this es \<longleftrightarrow>
     map snd (files this) = map Some es \<and>
     (\<forall>e \<in> set es. length (headerArray e) = 26) \<and>
     chained 0 es (offset this)"

text \<open>
  The record \<open>e\<close> is the one a successful \<^verbatim>\<open>add\<close> call stores: its file name is the
  encoded normalized name of the call, and its directory flag, extra field and comment
  are those of the call's options.
\<close>

definition entry_of_call :: "add_call \<Rightarrow> file_entry \<Rightarrow> bool" where
  "entry_of_call call e =
     (case call of (name, rd, opts, now) \<Rightarrow>
        (\<exists>u. encodeUTF8 (normalize_name name opts) = Inr u \<and> filename e = getBytes u) \<and>
        (\<exists>u. encodeUTF8 (comment_text opts) = Inr u \<and> fe_comment e = getBytes u) \<and>
        fe_directory e = directory opts \<and>
        fe_extraField e = entry_extraField opts)"

subsection \<open>Example inputs\<close>

text \<open>
  2023-06-15 10:30:45; options with every field absent; a pipeline that stores the
  content as it is and reports a checksum; a pipeline that fails after writing one byte;
  a content source of three bytes.
\<close>

definition example_date :: date where
  "example_date = \<lparr>getFullYear = 2023, getMonth = 5, getDate = 15,
                    getHours = 10, getMinutes = 30, getSeconds = 45\<rparr>"

definition no_options :: options where
  "no_options = \<lparr>bufferedWrite = False, directory = False, password = None, level = None,
                  comment = None, extraField = None, lastModDate = None, version = None\<rparr>"

definition store_pipeline :: config where
  "store_pipeline co r =
     (Inr \<lparr>result_length = length (reader_content r), signature = Some 0x12345678\<rparr>,
      reader_content r)"

definition failing_pipeline :: config where
  "failing_pipeline co r = (Inl (PipelineError 1), [0xAA])"

definition example_reader :: reader where
  "example_reader = \<lparr>reader_size = 3, reader_content = [0x61, 0x62, 0x63]\<rparr>"

text \<open>Two calls: a file with content, then a directory.\<close>

definition example_calls :: "add_call list" where
  "example_calls =
     [(str ''a.txt'', Some example_reader, no_options, example_date),
      (str ''docs'', None, no_options\<lparr>directory := True\<rparr>, example_date)]"

section \<open>Properties\<close>

subsection \<open>Arrays\<close>

lemma length_le16 [simp]: "length (le16 v) = 2"
  by (simp add: le16_def)

lemma length_le32 [simp]: "length (le32 v) = 4"
  by (simp add: le32_def)

lemma length_be16 [simp]: "length (be16 v) = 2"
  by (simp add: be16_def)

lemma length_be32 [simp]: "length (be32 v) = 4"
  by (simp add: be32_def)

lemma array_set_zero_tail:
  "length A \<le> k \<Longrightarrow> k + length bs \<le> length A + m \<Longrightarrow>
   array_set (A @ replicate m 0) bs k =
     Some (A @ replicate (k - length A) 0 @ bs @ replicate (length A + m - (k + length bs)) 0)"
  by (auto simp: array_set_def min_def)

lemma replicate_26:
  "replicate 26 (0::byte) = [0,0,0,0,0,0,0,0,0,0,0,0,0,0,0,0,0,0,0,0,0,0,0,0,0,0]"
  by (simp add: numeral_eq_Suc)

lemma replicate_12: "replicate 12 (0::byte) = [0,0,0,0,0,0,0,0,0,0,0,0]"
  by (simp add: numeral_eq_Suc)

lemma replicate_4: "replicate 4 (0::byte) = [0,0,0,0]"
  by (simp add: numeral_eq_Suc)

lemma getUint16_le16: "length A = off \<Longrightarrow> getUint16 (A @ le16 v @ B) off = v mod 65536"
proof -
  assume "length A = off"
  then have "getUint16 (A @ le16 v @ B) off = take_bit 8 v + 256 * take_bit 8 (drop_bit 8 v)"
    by (simp add: getUint16_def le16_def nth_append uint_word_of_int_eq)
  also have "\<dots> = v mod 256 + 256 * (v div 256 mod 256)"
    by (simp add: take_bit_eq_mod drop_bit_eq_div)
  also have "\<dots> = v mod 65536"
    using zmod_zmult2_eq [of 256 v 256] by simp
  finally show ?thesis .
qed

lemma getUint32_le32: "length A = off \<Longrightarrow> getUint32 (A @ le32 v @ B) off = v mod 4294967296"
proof -
  assume "length A = off"
  then have "getUint32 (A @ le32 v @ B) off =
      take_bit 8 v + 256 * take_bit 8 (drop_bit 8 v)
        + 65536 * take_bit 8 (drop_bit 16 v) + 16777216 * take_bit 8 (drop_bit 24 v)"
    by (simp add: getUint32_def le32_def nth_append uint_word_of_int_eq)
  also have "\<dots> = v mod 256 + 256 * (v div 256 mod 256)
        + 65536 * (v div 65536 mod 256) + 16777216 * (v div 16777216 mod 256)"
    by (simp add: take_bit_eq_mod drop_bit_eq_div)
  also have "\<dots> = v mod 4294967296"
  proof -
    have 1: "v mod 65536 = v mod 256 + 256 * (v div 256 mod 256)"
      using zmod_zmult2_eq [of 256 v 256] by simp
    have 2: "v mod 16777216 = v mod 65536 + 65536 * (v div 65536 mod 256)"
      using zmod_zmult2_eq [of 256 v 65536] by simp
    have 3: "v mod 4294967296 = v mod 16777216 + 16777216 * (v div 16777216 mod 256)"
      using zmod_zmult2_eq [of 256 v 16777216] by simp
    show ?thesis
      by (simp only: 1 2 3)
  qed
  finally show ?thesis .
qed

subsection \<open>The packed time and date\<close>

lemma take_bit_js_or: "n \<le> 32 \<Longrightarrow> take_bit n (js_or a b) = take_bit n (a OR b)"
  by (simp add: js_or_def take_bit_signed_take_bit ToInt32_def take_bit_or)

lemma take_bit_js_shl:
  "n \<le> 32 \<Longrightarrow> k < 32 \<Longrightarrow> take_bit n (js_shl a k) = take_bit n (push_bit k a)"
  by (simp add: js_shl_def ToInt32_def take_bit_signed_take_bit take_bit_push_bit)

lemma le16_cong: "take_bit 16 a = take_bit 16 b \<Longrightarrow> le16 a = le16 b"
proof -
  assume h: "take_bit 16 a = take_bit 16 b"
  have "take_bit 8 (take_bit 16 a) = take_bit 8 (take_bit 16 b)"
    and "take_bit 8 (drop_bit 8 (take_bit 16 a)) = take_bit 8 (drop_bit 8 (take_bit 16 b))"
    using h by simp_all
  then have "take_bit 8 a = take_bit 8 b" "take_bit 8 (drop_bit 8 a) = take_bit 8 (drop_bit 8 b)"
    by (simp_all add: drop_bit_take_bit)
  then show ?thesis
    by (simp add: le16_def word_of_int_eq_iff)
qed

lemma dos_time_documented:
  "take_bit 16 (dos_time d) = take_bit 16 (documented_time (getHours d) (getMinutes d) (getSeconds d))"
  unfolding dos_time_def documented_time_def
  by (simp add: take_bit_js_or take_bit_js_shl take_bit_push_bit)

lemma dos_date_documented:
  "take_bit 16 (dos_date d) = take_bit 16 (documented_date (getFullYear d) (getMonth d + 1) (getDate d))"
  unfolding dos_date_def documented_date_def
  by (simp add: take_bit_js_or take_bit_js_shl take_bit_push_bit)

lemma packed_range:
  fixes a b c :: int
  assumes "0 \<le> a" "a < 32" "0 \<le> b" "b < 64" "0 \<le> c" "c < 32"
  shows "0 \<le> push_bit 5 (push_bit 6 a OR b) OR c"
    and "push_bit 5 (push_bit 6 a OR b) OR c < 65536"
proof -
  have 1: "push_bit 6 a OR b < 2 ^ 11"
    using assms by (intro OR_upper) (simp_all add: push_bit_eq_mult)
  have 2: "0 \<le> push_bit 6 a OR b"
    using assms by simp
  have "push_bit 5 (push_bit 6 a OR b) OR c < 2 ^ 16"
    using assms 1 2 by (intro OR_upper) (simp_all add: push_bit_eq_mult)
  then show "push_bit 5 (push_bit 6 a OR b) OR c < 65536"
    by simp
  show "0 \<le> push_bit 5 (push_bit 6 a OR b) OR c"
    using assms by simp
qed

lemma documented_time_range:
  assumes "h < 24" "m < 60" "s < 60"
  shows "0 \<le> documented_time h m s" "documented_time h m s < 65536"
  using packed_range [of "int h" "int m" "int (s div 2)"] assms
  by (simp_all add: documented_time_def)

lemma documented_date_range:
  assumes "1980 \<le> y" "y \<le> 2107" "m \<le> 12" "d \<le> 31"
  shows "0 \<le> documented_date y m d" "documented_date y m d < 65536"
proof -
  have 1: "push_bit 4 (y - 1980) OR int m < 2 ^ 11"
    using assms by (intro OR_upper) (simp_all add: push_bit_eq_mult)
  have 2: "0 \<le> push_bit 4 (y - 1980) OR int m"
    using assms by simp
  have "push_bit 5 (push_bit 4 (y - 1980) OR int m) OR int d < 2 ^ 16"
    using assms 1 2 by (intro OR_upper) (simp_all add: push_bit_eq_mult)
  then show "documented_date y m d < 65536"
    by (simp add: documented_date_def)
  show "0 \<le> documented_date y m d"
    using assms by (simp add: documented_date_def)
qed

subsection \<open>The entry encoder\<close>

lemma length_header_start [simp]: "length (header_start opts) = 6"
  by (simp add: header_start_def)

lemma length_descriptor_fields [simp]: "length (descriptor_fields p enc) = 12"
  by (simp add: descriptor_fields_def split: option.split prod.split)

lemma length_entry_header [simp]: "length (entry_header opts d fl el p) = 26"
  by (simp add: entry_header_def)

lemma init_headerArray_eq:
  "init_headerArray opts d fl el = Some (entry_header opts d fl el None)"
  by (simp add: init_headerArray_def entry_header_def header_start_def descriptor_fields_def
      setUint32_def setUint16_def setUint8_def array_set_def replicate_26 replicate_12
      be32_def be16_def le32_def le16_def split: option.split)

lemma init_fileDataArray_eq:
  assumes h: "length h = 26"
  shows "init_fileDataArray h fname extra = Some (be32 0x504b0304 @ h @ fname @ extra)"
proof -
  let ?sig = "be32 0x504b0304"
  let ?n = "30 + length fname + length extra"
  have 1: "setUint32 (replicate ?n 0) 0 0x504b0304 False
           = Some (?sig @ replicate (26 + length fname + length extra) 0)"
    using array_set_zero_tail [of "[]" 0 ?sig ?n]
    by (simp add: setUint32_def)
  have 2: "array_set (?sig @ replicate (26 + length fname + length extra) 0) h 4
           = Some ((?sig @ h) @ replicate (length fname + length extra) 0)"
    using array_set_zero_tail [of ?sig 4 h "26 + length fname + length extra"] h
    by simp
  have 3: "array_set ((?sig @ h) @ replicate (length fname + length extra) 0) fname 30
           = Some ((?sig @ h @ fname) @ replicate (length extra) 0)"
    using array_set_zero_tail [of "?sig @ h" 30 fname "length fname + length extra"] h
    by simp
  have 4: "array_set ((?sig @ h @ fname) @ replicate (length extra) 0) extra (30 + length fname)
           = Some (?sig @ h @ fname @ extra)"
    using array_set_zero_tail [of "?sig @ h @ fname" "30 + length fname" extra "length extra"] h
    by simp
  show ?thesis
    by (simp only: init_fileDataArray_def 1 2 3 4 bind.bind_lunit)
qed

lemma patch_footer_eq:
  "patch_footer (entry_header opts d fl el None) processed (encrypted opts) =
     Some (entry_header opts d fl el processed,
           be32 0x504b0708 @ descriptor_fields processed (encrypted opts))"
proof -
  have f0: "setUint32 (replicate 16 0) 0 0x504b0708 False = Some (be32 0x504b0708 @ replicate 12 0)"
    using array_set_zero_tail [of "[]" 0 "be32 0x504b0708" 16] by (simp add: setUint32_def)
  have "patch_footer (A @ replicate 12 0 @ B) processed enc =
           Some (A @ descriptor_fields processed enc @ B,
                 be32 0x504b0708 @ descriptor_fields processed enc)"
    if "length A = 10" and "length B = 4" for A B enc
    using that
    apply (simp add: patch_footer_def f0 descriptor_fields_def split: option.split prod.split)
    apply (simp add: setUint32_def array_set_def replicate_4 replicate_12 le32_def be32_def)
    done
  from this [of "header_start opts @ le16 (dos_time d) @ le16 (dos_date d)"
      "le16 (int fl) @ le16 (int el)" "encrypted opts"]
  show ?thesis
    by (simp add: entry_header_def descriptor_fields_def)
qed

text \<open>
  \<^verbatim>\<open>createFileEntry\<close> without the intermediate arrays: no write is out of range, and the
  bytes it appends to the sink are the local header block, what the pipeline wrote, and
  the footer.
\<close>

lemma createFileEntry_eq:
  "createFileEntry name rd w cfg opts now =
     (case encodeUTF8 name of
        Inl e \<Rightarrow> (Inl e, w)
      | Inr utf8_name \<Rightarrow>
     (case encodeUTF8 (comment_text opts) of
        Inl e \<Rightarrow> (Inl e, w)
      | Inr utf8_comment \<Rightarrow>
     (let fname = getBytes utf8_name;
          extra = entry_extraField opts;
          header = entry_header opts (entry_date opts now) (length fname) (length extra);
          block = be32 0x504b0304 @ header None @ fname @ extra;
          fileEntry = (\<lambda>p n. \<lparr>headerArray = header p, fe_directory = directory opts,
                               filename = fname, fe_comment = getBytes utf8_comment,
                               fe_extraField = extra,
                               fe_length = 30 + length fname + length extra + n + 16,
                               fe_offset = None\<rparr>)
      in
     (case rd of
        None \<Rightarrow>
          (Inr (fileEntry None 0),
           w\<lparr>data := data w @ block @ be32 0x504b0708 @ replicate 12 0\<rparr>)
      | Some r \<Rightarrow>
          (case cfg (createCodec_options opts) r of
             (Inl e, written) \<Rightarrow> (Inl e, w\<lparr>data := data w @ block @ written\<rparr>)
           | (Inr result, written) \<Rightarrow>
               (Inr (fileEntry (Some (r, result)) (result_length result)),
                w\<lparr>data := data w @ block @ written @ be32 0x504b0708
                       @ descriptor_fields (Some (r, result)) (encrypted opts)\<rparr>))))))"
  by (simp add: createFileEntry_def init_headerArray_eq init_fileDataArray_eq patch_footer_eq
      writeUint8Array_def Let_def descriptor_fields_def
      split: sum.split option.split prod.split)

text \<open>The encoder only appends to the sink, and what it appends does not depend on the sink.\<close>

lemma createFileEntry_sink:
  "createFileEntry name rd w cfg opts now =
     (fst (createFileEntry name rd (init Uint8ArrayWriter) cfg opts now),
      w\<lparr>data := data w @ data (snd (createFileEntry name rd (init Uint8ArrayWriter) cfg opts now))\<rparr>)"
  unfolding createFileEntry_eq
  by (simp add: init_def Uint8ArrayWriter_def Let_def split: sum.split option.split prod.split)

lemma createFileEntry_Inr:
  assumes "createFileEntry name rd w cfg opts now = (Inr e, w')"
  shows "length (headerArray e) = 26" and "fe_offset e = None"
    and "fe_directory e = directory opts" and "fe_extraField e = entry_extraField opts"
    and "\<exists>u. encodeUTF8 name = Inr u \<and> filename e = getBytes u"
    and "\<exists>u. encodeUTF8 (comment_text opts) = Inr u \<and> fe_comment e = getBytes u"
  using assms
  by (auto simp: createFileEntry_eq Let_def split: sum.splits option.splits prod.splits)

text \<open>What a successful call of the encoder returns and writes.\<close>

lemma createFileEntry_Inr_layout:
  assumes "createFileEntry name rd w cfg opts now = (Inr e, w')"
  shows "\<exists>p written.
           (case rd of
              None \<Rightarrow> p = None \<and> written = []
            | Some r \<Rightarrow> \<exists>res. cfg (createCodec_options opts) r = (Inr res, written) \<and>
                              p = Some (r, res)) \<and>
           headerArray e = entry_header opts (entry_date opts now) (length (filename e))
                             (length (fe_extraField e)) p \<and>
           fe_length e = 30 + length (filename e) + length (fe_extraField e)
                           + (case p of None \<Rightarrow> 0 | Some (r, res) \<Rightarrow> result_length res) + 16 \<and>
           data w' = data w @ be32 0x504b0304
                       @ entry_header opts (entry_date opts now) (length (filename e))
                           (length (fe_extraField e)) None
                       @ filename e @ fe_extraField e @ written
                       @ be32 0x504b0708 @ descriptor_fields p (encrypted opts)"
proof -
  from assms obtain un uc where un: "encodeUTF8 name = Inr un"
    and uc: "encodeUTF8 (comment_text opts) = Inr uc"
    by (auto simp: createFileEntry_eq split: sum.splits)
  show ?thesis
  proof (cases rd)
    case None
    with assms un uc show ?thesis
      by (intro exI [of _ None] exI [of _ "[]"])
        (auto simp: createFileEntry_eq Let_def descriptor_fields_def)
  next
    case (Some r)
    with assms un uc obtain res written where
      c: "cfg (createCodec_options opts) r = (Inr res, written)"
      by (auto simp: createFileEntry_eq Let_def split: prod.splits sum.splits)
    with assms un uc Some show ?thesis
      by (intro exI [of _ "Some (r, res)"] exI [of _ written])
        (auto simp: createFileEntry_eq Let_def)
  qed
qed

text \<open>The encoder and the normalization of the name do not read \<open>bufferedWrite\<close>.\<close>

lemma createFileEntry_bufferedWrite:
  "createFileEntry name rd w cfg (opts\<lparr>bufferedWrite := b\<rparr>) now =
   createFileEntry name rd w cfg opts now"
proof -
  let ?o = "opts\<lparr>bufferedWrite := b\<rparr>"
  have eqs: "comment_text ?o = comment_text opts" "entry_extraField ?o = entry_extraField opts"
    "entry_header ?o = entry_header opts" "entry_date ?o = entry_date opts"
    "createCodec_options ?o = createCodec_options opts" "encrypted ?o = encrypted opts"
    "directory ?o = directory opts"
    by (simp_all add: comment_text_def entry_extraField_def entry_header_def fun_eq_iff
      header_start_def entry_date_def createCodec_options_def encrypted_def compressed_def
      output_signed_def)
  show ?thesis
    unfolding createFileEntry_eq eqs ..
qed

text \<open>The extra field of an encrypted entry.\<close>

lemma aes_extraField_eq:
  "aes_extraField cmp =
     [0x01, 0x99, 0x07, 0x00, 0x02, 0x00, 0x41, 0x45, 0x03, if cmp then 0x08 else 0x00, 0x00]"
  by (simp add: aes_extraField_def Let_def)

lemma createFileEntry_extraField:
  assumes "encrypted opts"
  shows "createFileEntry name rd w cfg (opts\<lparr>extraField := x\<rparr>) now =
         createFileEntry name rd w cfg opts now"
proof -
  let ?o = "opts\<lparr>extraField := x\<rparr>"
  have eqs: "comment_text ?o = comment_text opts" "entry_extraField ?o = entry_extraField opts"
    "entry_header ?o = entry_header opts" "entry_date ?o = entry_date opts"
    "createCodec_options ?o = createCodec_options opts" "encrypted ?o = encrypted opts"
    "directory ?o = directory opts"
    using assms
    by (simp_all add: comment_text_def entry_extraField_def entry_header_def fun_eq_iff
      header_start_def entry_date_def createCodec_options_def encrypted_def compressed_def
      output_signed_def)
  show ?thesis
    unfolding createFileEntry_eq eqs ..
qed

subsection \<open>The map of entries and \<^verbatim>\<open>add\<close>\<close>

lemma map_has_append [simp]: "map_has (m @ m') k \<longleftrightarrow> map_has m k \<or> map_has m' k"
  by (auto simp: map_has_def)

lemma map_has_Nil [simp]: "\<not> map_has [] k"
  by (simp add: map_has_def)

lemma map_has_Cons [simp]: "map_has ((k', v) # m) k \<longleftrightarrow> k' = k \<or> map_has m k"
  by (auto simp: map_has_def)

lemma map_set_new: "\<not> map_has m k \<Longrightarrow> map_set m k v = m @ [(k, v)]"
  by (induction m) auto

lemma map_set_last: "\<not> map_has m k \<Longrightarrow> map_set (m @ [(k, v)]) k v' = m @ [(k, v')]"
  by (induction m) auto

lemma normalize_name_bufferedWrite:
  "normalize_name name (opts\<lparr>bufferedWrite := b\<rparr>) = normalize_name name opts"
  by (simp add: normalize_name_def)

lemma add_eq:
  "add this name rd opts now =
     (let nm = normalize_name name opts;
          w0 = (if bufferedWrite opts then writer this else (writer this)\<lparr>initialized := True\<rparr>);
          (r, p) = createFileEntry nm rd (init Uint8ArrayWriter) (config this) opts now
      in
      if map_has (files this) nm then (Some ERR_DUPLICATED_NAME, this\<lparr>writer := w0\<rparr>)
      else
        (case r of
           Inl e \<Rightarrow>
             (Some e,
              this\<lparr>writer := (if bufferedWrite opts then w0 else w0\<lparr>data := data w0 @ data p\<rparr>),
                   files := files this @ [(nm, None)]\<rparr>)
         | Inr fileEntry \<Rightarrow>
             (None,
              this\<lparr>writer := w0\<lparr>data := data w0 @ data p\<rparr>,
                   files := files this @ [(nm, Some (fileEntry\<lparr>fe_offset := Some (offset this)\<rparr>))],
                   offset := offset this + fe_length fileEntry\<rparr>)))"
proof (cases "bufferedWrite opts")
  case True
  then show ?thesis
    by (simp add: add_def Let_def map_set_new map_set_last getData_def writeUint8Array_def
        split: prod.split sum.split)
next
  case False
  have init_eq: "(if initialized (writer this) then this else this\<lparr>writer := init (writer this)\<rparr>)
      = this\<lparr>writer := (writer this)\<lparr>initialized := True\<rparr>\<rparr>"
    by (simp add: init_def)
  show ?thesis
    using False
    apply (simp add: add_def Let_def init_eq)
    apply (subst createFileEntry_sink)
    apply (simp add: add_def Let_def map_set_new map_set_last getData_def writeUint8Array_def
        split: prod.split sum.split)
    done
qed

text \<open>A successful \<^verbatim>\<open>add\<close>, and a failed one.\<close>

lemma add_None:
  assumes "add this name rd opts now = (None, this')"
  shows "\<exists>e p. createFileEntry (normalize_name name opts) rd (init Uint8ArrayWriter) (config this)
                  opts now = (Inr e, p) \<and>
               \<not> map_has (files this) (normalize_name name opts) \<and>
               files this' = files this @ [(normalize_name name opts,
                                            Some (e\<lparr>fe_offset := Some (offset this)\<rparr>))] \<and>
               offset this' = offset this + fe_length e \<and>
               config this' = config this \<and>
               data (writer this') = data (writer this) @ data p"
  using assms
  by (auto simp: add_eq Let_def split: prod.splits sum.splits if_splits)

lemma add_Some:
  assumes "add this name rd opts now = (Some err, this')"
  shows "offset this' = offset this \<and> config this' = config this \<and>
         (if map_has (files this) (normalize_name name opts)
          then err = ERR_DUPLICATED_NAME \<and> files this' = files this \<and>
               data (writer this') = data (writer this)
          else files this' = files this @ [(normalize_name name opts, None)])"
  using assms
  by (auto simp: add_eq Let_def split: prod.splits sum.splits if_splits)

text \<open>When \<open>add\<close> succeeds.\<close>

lemma add_succeeds:
  assumes "\<not> map_has (files this) (normalize_name name opts)"
    and "encodeUTF8 (normalize_name name opts) = Inr un"
    and "encodeUTF8 (comment_text opts) = Inr uc"
    and "rd = None \<or> (\<exists>r res written. rd = Some r \<and>
           config this (createCodec_options opts) r = (Inr res, written))"
  shows "fst (add this name rd opts now) = None"
  using assms
  by (auto simp: add_eq Let_def createFileEntry_eq split: prod.splits option.splits)

subsection \<open>The central directory and \<^verbatim>\<open>close\<close>\<close>

lemma length_central_record:
  "length (headerArray file) = 26 \<Longrightarrow> length (central_record file) = record_length file"
  by (simp add: central_record_def record_length_def)

lemma central_record_attribute:
  "length (headerArray e) = 26 \<Longrightarrow>
   central_record e ! 38 = (if fe_directory e then 0x10 else 0x00)"
  by (simp add: central_record_def nth_append)

lemma length_concat_central_record:
  "\<forall>e \<in> set es. length (headerArray e) = 26 \<Longrightarrow>
   length (concat (map central_record es)) = sum_list (map record_length es)"
  by (induction es) (auto simp: length_central_record)

lemma write_record_eq:
  assumes h: "length (headerArray file) = 26"
    and A: "length A = off"
    and m: "record_length file \<le> m"
  shows "write_record (A @ replicate m 0) off file =
           Some (A @ central_record file @ replicate (m - record_length file) 0)"
proof -
  let ?fn = "length (filename file)" and ?ef = "length (fe_extraField file)"
  let ?cm = "length (fe_comment file)"
  let ?off = "le32 (case fe_offset file of Some n \<Rightarrow> int n | None \<Rightarrow> 0)"
  let ?attr = "[if fe_directory file then 0x10 else 0x00 :: byte]"
  have m': "46 + ?fn + ?cm + ?ef \<le> m"
    using m by (simp add: record_length_def)
  let ?A1 = "A @ be32 0x504b0102"
  have 1: "setUint32 (A @ replicate m 0) off 0x504b0102 False = Some (?A1 @ replicate (m - 4) 0)"
    using array_set_zero_tail [of A off "be32 0x504b0102" m] A m'
    by (simp add: setUint32_def)
  let ?A2 = "?A1 @ be16 0x1400"
  have 2: "setUint16 (?A1 @ replicate (m - 4) 0) (off + 4) 0x1400 False
           = Some (?A2 @ replicate (m - 6) 0)"
    using array_set_zero_tail [of ?A1 "off + 4" "be16 0x1400" "m - 4"] A m'
    by (simp add: setUint16_def)
  let ?A3 = "?A2 @ headerArray file"
  have 3: "array_set (?A2 @ replicate (m - 6) 0) (headerArray file) (off + 6)
           = Some (?A3 @ replicate (m - 32) 0)"
    using array_set_zero_tail [of ?A2 "off + 6" "headerArray file" "m - 6"] A m' h
    by simp
  let ?A4 = "?A3 @ le16 (int ?cm)"
  have 4: "setUint16 (?A3 @ replicate (m - 32) 0) (off + 32) (int ?cm) True
           = Some (?A4 @ replicate (m - 34) 0)"
    using array_set_zero_tail [of ?A3 "off + 32" "le16 (int ?cm)" "m - 32"] A m' h
    by (simp add: setUint16_def)
  let ?A5 = "?A4 @ replicate 4 0 @ ?attr"
  have 5: "(if fe_directory file then setUint8 (?A4 @ replicate (m - 34) 0) (off + 38) 0x10
            else Some (?A4 @ replicate (m - 34) 0))
           = Some (?A5 @ replicate (m - 39) 0)"
  proof (cases "fe_directory file")
    case True
    then show ?thesis
      using array_set_zero_tail [of ?A4 "off + 38" "[0x10]" "m - 34"] A m' h
      by (simp add: setUint8_def)
  next
    case False
    have "replicate (m - 34) (0::byte) = replicate 5 0 @ replicate (m - 39) 0"
      using m' by (simp add: replicate_add [symmetric])
    also have "replicate 5 (0::byte) = replicate 4 0 @ [0]"
      by (simp add: numeral_eq_Suc)
    finally show ?thesis
      using False by simp
  qed
  let ?A6 = "?A5 @ replicate 3 0 @ ?off"
  have 6: "setUint32 (?A5 @ replicate (m - 39) 0) (off + 42)
             (case fe_offset file of Some n \<Rightarrow> int n | None \<Rightarrow> 0) True
           = Some (?A6 @ replicate (m - 46) 0)"
    using array_set_zero_tail [of ?A5 "off + 42" ?off "m - 39"] A m' h
    by (simp add: setUint32_def)
  let ?A7 = "?A6 @ filename file"
  have 7: "array_set (?A6 @ replicate (m - 46) 0) (filename file) (off + 46)
           = Some (?A7 @ replicate (m - 46 - ?fn) 0)"
    using array_set_zero_tail [of ?A6 "off + 46" "filename file" "m - 46"] A m' h
    by simp
  let ?A8 = "?A7 @ fe_extraField file"
  have 8: "array_set (?A7 @ replicate (m - 46 - ?fn) 0) (fe_extraField file) (off + 46 + ?fn)
           = Some (?A8 @ replicate (m - 46 - ?fn - ?ef) 0)"
    using array_set_zero_tail [of ?A7 "off + 46 + ?fn" "fe_extraField file" "m - 46 - ?fn"] A m' h
    by simp
  have 9: "array_set (?A8 @ replicate (m - 46 - ?fn - ?ef) 0) (fe_comment file)
             (off + 46 + ?fn + ?ef)
           = Some ((?A8 @ fe_comment file) @ replicate (m - 46 - ?fn - ?ef - ?cm) 0)"
    using array_set_zero_tail [of ?A8 "off + 46 + ?fn + ?ef" "fe_comment file" "m - 46 - ?fn - ?ef"]
      A m' h
    by simp
  have "write_record (A @ replicate m 0) off file
        = Some ((?A8 @ fe_comment file) @ replicate (m - 46 - ?fn - ?ef - ?cm) 0)"
    by (simp only: write_record_def 1 2 3 4 5 6 7 8 9 bind.bind_lunit)
  also have "m - 46 - ?fn - ?ef - ?cm = m - record_length file"
    by (simp add: record_length_def)
  also have "?A8 @ fe_comment file = A @ central_record file"
    by (simp add: central_record_def)
  finally show ?thesis
    by simp
qed

lemma close_length_eq:
  "map snd m = map Some es \<Longrightarrow>
   close_length m n = Inr (n + sum_list (map record_length es))"
proof (induction m arbitrary: es n)
  case Nil
  then show ?case by simp
next
  case (Cons kv m)
  then obtain k e es' where "kv = (k, Some e)" "es = e # es'" "map snd m = map Some es'"
    by (cases kv; cases es) auto
  with Cons.IH [of es' "n + record_length e"] show ?case
    by simp
qed

lemma close_length_placeholder:
  "None \<in> set (map snd m) \<Longrightarrow> close_length m n = Inl TypeError"
  by (induction m n rule: close_length.induct) auto

lemma close_records_eq:
  "map snd m = map Some es \<Longrightarrow> \<forall>e \<in> set es. length (headerArray e) = 26 \<Longrightarrow>
   length A = off \<Longrightarrow> sum_list (map record_length es) \<le> k \<Longrightarrow>
   close_records m (A @ replicate k 0) off =
     Inr (A @ concat (map central_record es) @ replicate (k - sum_list (map record_length es)) 0,
          off + sum_list (map record_length es))"
proof (induction m arbitrary: es A off k)
  case Nil
  then show ?case by simp
next
  case (Cons kv m)
  then obtain key e es' where kv: "kv = (key, Some e)" and es: "es = e # es'"
    and m: "map snd m = map Some es'"
    by (cases kv; cases es) auto
  have h: "length (headerArray e) = 26" and hs: "\<forall>e \<in> set es'. length (headerArray e) = 26"
    using Cons.prems(2) es by auto
  have k: "record_length e \<le> k" "sum_list (map record_length es') \<le> k - record_length e"
    using Cons.prems(4) es by auto
  have w: "write_record (A @ replicate k 0) off e =
             Some ((A @ central_record e) @ replicate (k - record_length e) 0)"
    using write_record_eq [OF h Cons.prems(3) k(1)] by simp
  have len: "length (A @ central_record e) = off + record_length e"
    using Cons.prems(3) h by (simp add: length_central_record)
  show ?case
    using Cons.IH [OF m hs len k(2)]
    by (simp add: kv es w add.assoc)
qed

lemma write_trailer_eq:
  assumes A: "length A = off"
  shows "write_trailer (A @ replicate 22 0) off n dl ofs =
           Some (A @ end_of_central_directory n dl ofs 0)"
proof -
  let ?A1 = "A @ be32 0x504b0506"
  have 1: "setUint32 (A @ replicate 22 0) off 0x504b0506 False = Some (?A1 @ replicate 18 0)"
    using array_set_zero_tail [of A off "be32 0x504b0506" 22] A
    by (simp add: setUint32_def)
  let ?A2 = "?A1 @ replicate 4 0 @ le16 (int n)"
  have 2: "setUint16 (?A1 @ replicate 18 0) (off + 8) (int n) True = Some (?A2 @ replicate 12 0)"
    using array_set_zero_tail [of ?A1 "off + 8" "le16 (int n)" 18] A
    by (simp add: setUint16_def)
  let ?A3 = "?A2 @ le16 (int n)"
  have 3: "setUint16 (?A2 @ replicate 12 0) (off + 10) (int n) True = Some (?A3 @ replicate 10 0)"
    using array_set_zero_tail [of ?A2 "off + 10" "le16 (int n)" 12] A
    by (simp add: setUint16_def)
  let ?A4 = "?A3 @ le32 (int dl)"
  have 4: "setUint32 (?A3 @ replicate 10 0) (off + 12) (int dl) True = Some (?A4 @ replicate 6 0)"
    using array_set_zero_tail [of ?A3 "off + 12" "le32 (int dl)" 10] A
    by (simp add: setUint32_def)
  have 5: "setUint32 (?A4 @ replicate 6 0) (off + 16) (int ofs) True
           = Some ((?A4 @ le32 (int ofs)) @ replicate 2 0)"
    using array_set_zero_tail [of ?A4 "off + 16" "le32 (int ofs)" 6] A
    by (simp add: setUint32_def)
  have "write_trailer (A @ replicate 22 0) off n dl ofs = Some ((?A4 @ le32 (int ofs)) @ replicate 2 0)"
    by (simp only: write_trailer_def 1 2 3 4 5 bind.bind_lunit)
  also have "replicate 2 (0::byte) = le16 0"
    by (simp add: le16_def numeral_eq_Suc)
  finally show ?thesis
    by (simp add: end_of_central_directory_def)
qed

lemma set_comment_length:
  assumes A: "length A = off"
  shows "setUint16 (A @ end_of_central_directory n dl ofs 0) (off + 20) (int c) True =
           Some (A @ end_of_central_directory n dl ofs c)"
  using A by (simp add: setUint16_def array_set_def end_of_central_directory_def)

text \<open>\<^verbatim>\<open>close\<close> on a writer whose entries are all complete.\<close>

lemma close_eq:
  assumes m: "map snd (files this) = map Some es"
    and h: "\<forall>e \<in> set es. length (headerArray e) = 26"
  shows "close this cmt =
     (let c = (case cmt of Some c \<Rightarrow> c | None \<Rightarrow> []);
          out = data (writer this) @ concat (map central_record es)
                  @ end_of_central_directory (length es) (sum_list (map record_length es))
                      (offset this) (length c) @ c
      in if 65536 < length c then Inl ERR_ZIP_FILE_COMMENT
         else Inr (out, this\<lparr>writer := (writer this)\<lparr>data := out\<rparr>\<rparr>))"
proof -
  let ?dl = "sum_list (map record_length es)"
  let ?cd = "concat (map central_record es)"
  have len: "length (files this) = length es"
    using m by (metis length_map)
  have cdl: "length ?cd = ?dl"
    using h by (induction es) (auto simp: length_central_record)
  have 1: "close_length (files this) 0 = Inr ?dl"
    using close_length_eq [OF m, of 0] by simp
  have 2: "close_records (files this) (replicate (?dl + 22) 0) 0 = Inr (?cd @ replicate 22 0, ?dl)"
    using close_records_eq [OF m h, of "[]" 0 "?dl + 22"] by simp
  have 3: "write_trailer (?cd @ replicate 22 0) ?dl (length es) ?dl (offset this)
           = Some (?cd @ end_of_central_directory (length es) ?dl (offset this) 0)"
    using write_trailer_eq [OF cdl] .
  show ?thesis
    by (cases cmt)
      (auto simp: close_def 1 2 3 len Let_def set_comment_length [OF cdl] writeUint8Array_def
        getData_def not_le)
qed

lemma close_placeholder:
  "None \<in> set (map snd (files this)) \<Longrightarrow> close this cmt = Inl TypeError"
  by (simp add: close_def close_length_placeholder)

subsection \<open>Sequences of calls\<close>

lemma chained_append:
  "chained s (es @ [e]) f \<longleftrightarrow> (\<exists>m. chained s es m \<and> fe_offset e = Some m \<and> f = m + fe_length e)"
  by (induction es arbitrary: s) auto

lemma chained_sum: "chained s es f \<Longrightarrow> s + sum_list (map fe_length es) = f"
proof (induction es arbitrary: s)
  case Nil
  then show ?case by simp
next
  case (Cons e es)
  from Cons.prems have "chained (s + fe_length e) es f" by simp
  from Cons.IH [OF this] show ?case by (simp add: add.assoc)
qed

lemma chained_Suc:
  "chained s es f \<Longrightarrow> Suc i < length es \<Longrightarrow>
   \<exists>n. fe_offset (es ! i) = Some n \<and> fe_offset (es ! Suc i) = Some (n + fe_length (es ! i))"
proof (induction es arbitrary: s i)
  case Nil
  then show ?case by simp
next
  case (Cons e es)
  show ?case
  proof (cases i)
    case 0
    with Cons.prems show ?thesis
      by (cases es) auto
  next
    case (Suc j)
    with Cons.prems Cons.IH [of "s + fe_length e" j] show ?thesis
      by auto
  qed
qed

lemma complete_ZipWriter: "complete (ZipWriter w cfg) []"
  by (simp add: complete_def ZipWriter_def)

lemma complete_add_entry:
  assumes c: "complete this es" and a: "add this name rd opts now = (None, this')"
  shows "\<exists>e. complete this' (es @ [e]) \<and>
             files this' = files this @ [(normalize_name name opts, Some e)] \<and>
             entry_of_call (name, rd, opts, now) e"
proof -
  from add_None [OF a] obtain e p where
    cfe: "createFileEntry (normalize_name name opts) rd (init Uint8ArrayWriter) (config this)
            opts now = (Inr e, p)"
    and f: "files this' = files this @ [(normalize_name name opts,
                                          Some (e\<lparr>fe_offset := Some (offset this)\<rparr>))]"
    and off: "offset this' = offset this + fe_length e"
    by blast
  let ?e = "e\<lparr>fe_offset := Some (offset this)\<rparr>"
  have "complete this' (es @ [?e])"
    using c f off createFileEntry_Inr(1) [OF cfe]
    by (auto simp: complete_def chained_append)
  moreover have "entry_of_call (name, rd, opts, now) ?e"
    using createFileEntry_Inr(3-6) [OF cfe] by (simp add: entry_of_call_def)
  ultimately show ?thesis
    using f by blast
qed

lemma complete_add_all_entries:
  "complete this es \<Longrightarrow> add_all this calls = (None, this') \<Longrightarrow>
   \<exists>es'. complete this' (es @ es') \<and> list_all2 entry_of_call calls es' \<and>
         map fst (files this') =
           map fst (files this) @ map (\<lambda>(name, rd, opts, now). normalize_name name opts) calls"
proof (induction calls arbitrary: this es)
  case Nil
  then show ?case by simp
next
  case (Cons call calls)
  obtain name rd opts now where call: "call = (name, rd, opts, now)"
    by (cases call) auto
  from Cons.prems(2) obtain this1 where
    a: "add this name rd opts now = (None, this1)" and r: "add_all this1 calls = (None, this')"
    by (auto simp: call split: prod.splits option.splits)
  from complete_add_entry [OF Cons.prems(1) a] obtain e where
    c1: "complete this1 (es @ [e])"
    and f1: "files this1 = files this @ [(normalize_name name opts, Some e)]"
    and e: "entry_of_call (name, rd, opts, now) e"
    by blast
  from Cons.IH [OF c1 r] obtain es' where
    "complete this' ((es @ [e]) @ es')" "list_all2 entry_of_call calls es'"
    "map fst (files this') =
       map fst (files this1) @ map (\<lambda>(name, rd, opts, now). normalize_name name opts) calls"
    by blast
  then show ?case
    using e by (intro exI [of _ "e # es'"]) (simp add: f1 call)
qed

text \<open>What a sequence of successful calls on a new writer leaves.\<close>

lemma add_all_ZipWriter:
  assumes "add_all (ZipWriter w cfg) calls = (None, this)"
  shows "\<exists>es. complete this es \<and> list_all2 entry_of_call calls es \<and>
              map fst (files this) = map (\<lambda>(name, rd, opts, now). normalize_name name opts) calls"
  using complete_add_all_entries [OF complete_ZipWriter assms]
  by (simp add: ZipWriter_def)

lemma add_all_distinct:
  "distinct (map fst (files this)) \<Longrightarrow> add_all this calls = (None, this') \<Longrightarrow>
   distinct (map fst (files this'))"
proof (induction calls arbitrary: this)
  case Nil
  then show ?case by simp
next
  case (Cons call calls)
  obtain name rd opts now where call: "call = (name, rd, opts, now)"
    by (cases call) auto
  from Cons.prems(2) obtain this1 where
    a: "add this name rd opts now = (None, this1)" and r: "add_all this1 calls = (None, this')"
    by (auto simp: call split: prod.splits option.splits)
  from add_None [OF a] Cons.prems(1) have "distinct (map fst (files this1))"
    by (auto simp: map_has_def)
  from Cons.IH [OF this r] show ?case .
qed

lemma add_all_Cons_None:
  "fst (add this name rd opts now) = None \<Longrightarrow>
   add_all this ((name, rd, opts, now) # calls) =
     add_all (snd (add this name rd opts now)) calls"
  by (cases "add this name rd opts now") simp

text \<open>\<^verbatim>\<open>close\<close> on a writer whose entries are complete, with the trailer written out.\<close>

lemma close_complete:
  assumes "complete this es"
  shows "close this cmt =
     (let c = (case cmt of Some c \<Rightarrow> c | None \<Rightarrow> []);
          cd = concat (map central_record es);
          out = data (writer this) @ cd
                  @ end_of_central_directory (length es) (length cd) (offset this) (length c) @ c
      in if 65536 < length c then Inl ERR_ZIP_FILE_COMMENT
         else Inr (out, this\<lparr>writer := (writer this)\<lparr>data := out\<rparr>\<rparr>))"
proof -
  from assms have m: "map snd (files this) = map Some es"
    and h: "\<forall>e \<in> set es. length (headerArray e) = 26"
    by (simp_all add: complete_def)
  show ?thesis
    unfolding close_eq [OF m h] length_concat_central_record [OF h] Let_def ..
qed

subsection \<open>The example inputs evaluated\<close>

text \<open>Evaluating the examples.\<close>

lemma encodeUTF8_a_txt: "encodeUTF8 (str ''a.txt'') = Inr (str ''a.txt'')"
  by (simp add: str_def utf8_def)

lemma trim_a_txt: "trim (str '' a.txt '') = str ''a.txt''" "trim (str ''a.txt'') = str ''a.txt''"
  by (simp_all add: trim_def str_def is_white_space_def)

lemma no_options_simps:
  "\<not> bufferedWrite no_options" "\<not> directory no_options" "password no_options = None"
  "comment_text no_options = []" "\<not> encrypted no_options" "extraField no_options = None"
  by (simp_all add: no_options_def comment_text_def encrypted_def)

lemma normalize_a_txt:
  "normalize_name (str '' a.txt '') no_options = str ''a.txt''"
  "normalize_name (str ''a.txt'') no_options = str ''a.txt''"
  by (simp_all add: normalize_name_def trim_a_txt no_options_simps)

lemma files_example_add:
  "map fst (files (snd (add (ZipWriter w cfg) (str ''a.txt'') None no_options now))) = [str ''a.txt'']"
  by (simp add: add_eq Let_def normalize_a_txt ZipWriter_def createFileEntry_eq encodeUTF8_a_txt
      no_options_simps split: prod.split)

lemma example_add_succeeds:
  assumes "\<not> directory opts" and "comment opts = None"
  shows "fst (add (ZipWriter w store_pipeline) (str ''a.txt'') rd opts now) = None"
proof (rule add_succeeds)
  have n: "normalize_name (str ''a.txt'') opts = str ''a.txt''"
    using assms by (simp add: normalize_name_def trim_a_txt)
  show "\<not> map_has (files (ZipWriter w store_pipeline)) (normalize_name (str ''a.txt'') opts)"
    by (simp add: ZipWriter_def)
  show "encodeUTF8 (normalize_name (str ''a.txt'') opts) = Inr (str ''a.txt'')"
    by (simp add: n encodeUTF8_a_txt)
  show "encodeUTF8 (comment_text opts) = Inr []"
    using assms by (simp add: comment_text_def)
  show "rd = None \<or> (\<exists>r res written. rd = Some r \<and>
           config (ZipWriter w store_pipeline) (createCodec_options opts) r = (Inr res, written))"
    by (cases rd) (simp_all add: ZipWriter_def store_pipeline_def)
qed

text \<open>Evaluating the two example calls.\<close>

lemma trim_docs: "trim (str ''docs'') = str ''docs''"
  by (simp add: trim_def str_def is_white_space_def)

lemma normalize_docs: "normalize_name (str ''docs'') (no_options\<lparr>directory := True\<rparr>) = str ''docs/''"
  by (simp add: normalize_name_def trim_docs) (simp add: str_def)

lemma encodeUTF8_docs: "encodeUTF8 (str ''docs/'') = Inr (str ''docs/'')"
  by (simp add: str_def utf8_def)

lemma example_first_add:
  "fst (add (ZipWriter w store_pipeline) (str ''a.txt'') rd no_options now) = None"
  by (rule example_add_succeeds) (simp_all add: no_options_def)

lemma example_first_call:
  "add_all (ZipWriter w store_pipeline)
     [(str ''a.txt'', Some example_reader, no_options, example_date)] =
   (None, snd (add (ZipWriter w store_pipeline) (str ''a.txt'') (Some example_reader)
                 no_options example_date))"
  by (simp only: add_all_Cons_None [OF example_first_add] add_all.simps(1))

lemma example_first_files:
  "map fst (files (snd (add (ZipWriter w store_pipeline) (str ''a.txt'') (Some example_reader)
                          no_options example_date))) = [str ''a.txt'']"
proof -
  let ?W = "ZipWriter w store_pipeline"
  let ?r = "add ?W (str ''a.txt'') (Some example_reader) no_options example_date"
  have "fst ?r = None"
    by (rule example_first_add)
  then have "?r = (None, snd ?r)"
    by (metis prod.collapse)
  from add_None [OF this] show ?thesis
    by (auto simp: normalize_a_txt ZipWriter_def)
qed

lemma example_calls_succeed:
  "add_all (ZipWriter w store_pipeline) example_calls =
     (None, snd (add_all (ZipWriter w store_pipeline) example_calls))"
proof -
  let ?W = "ZipWriter w store_pipeline"
  let ?W1 = "snd (add ?W (str ''a.txt'') (Some example_reader) no_options example_date)"
  let ?d = "no_options\<lparr>directory := True\<rparr>"
  have 1: "fst (add ?W (str ''a.txt'') (Some example_reader) no_options example_date) = None"
    by (rule example_first_add)
  have 2: "fst (add ?W1 (str ''docs'') None ?d example_date) = None"
  proof (rule add_succeeds)
    show "\<not> map_has (files ?W1) (normalize_name (str ''docs'') ?d)"
      by (simp add: map_has_def example_first_files normalize_docs) (simp add: str_def)
    show "encodeUTF8 (normalize_name (str ''docs'') ?d) = Inr (str ''docs/'')"
      by (simp add: normalize_docs encodeUTF8_docs)
    show "encodeUTF8 (comment_text ?d) = Inr []"
      by (simp add: comment_text_def no_options_def)
    show "None = None \<or> (\<exists>r res written. None = Some r \<and>
           config ?W1 (createCodec_options ?d) r = (Inr res, written))"
      by simp
  qed
  have "fst (add_all ?W example_calls) = None"
    by (simp only: example_calls_def add_all_Cons_None [OF 1] add_all_Cons_None [OF 2]
        add_all.simps(1) fst_conv)
  then show ?thesis
    by (metis prod.collapse)
qed

lemma example_calls_names:
  "map (\<lambda>(name, rd, opts, now). normalize_name name opts) example_calls =
     [str ''a.txt'', str ''docs/'']"
  by (simp add: example_calls_def normalize_a_txt normalize_docs)

lemma directory_options_simps:
  "directory (no_options\<lparr>directory := True\<rparr>)"
  "\<not> bufferedWrite (no_options\<lparr>directory := True\<rparr>)"
  "comment_text (no_options\<lparr>directory := True\<rparr>) = []"
  "entry_extraField (no_options\<lparr>directory := True\<rparr>) = []"
  "entry_extraField no_options = []"
  by (simp_all add: no_options_def comment_text_def entry_extraField_def encrypted_def)

lemma length_getBytes [simp]: "length (getBytes s) = length s"
  by (simp add: getBytes_def)

lemma length_str [simp]: "length (str s) = length s"
  by (simp add: str_def)

lemma str_neq: "str ''docs/'' \<noteq> str ''a.txt''" "str ''a.txt'' \<noteq> str ''docs/''"
  by (simp_all add: str_def)

lemma example_calls_lengths:
  "map (map_option (\<lambda>e. (fe_offset e, fe_length e)) \<circ> snd)
     (files (snd (add_all (ZipWriter w store_pipeline) example_calls)))
     = [Some (Some 0, 54), Some (Some 54, 51)] \<and>
   offset (snd (add_all (ZipWriter w store_pipeline) example_calls)) = 105"
  by (simp add: example_calls_def add_eq createFileEntry_eq Let_def normalize_a_txt normalize_docs
      encodeUTF8_a_txt encodeUTF8_docs no_options_simps directory_options_simps
      store_pipeline_def ZipWriter_def example_reader_def str_neq)

section \<open>The claims\<close>

text \<open>
  C1. On a writer left by successful \<open>add\<close> calls, \<open>close\<close> with a comment of 65535 bytes
  succeeds and writes the length and the comment; \<open>close\<close> with a comment of 65536 bytes
  succeeds too, where the claim has it fail: the trailer it writes declares a comment of
  length 0 and the 65536 bytes follow it. Only a longer comment is refused.
\<close>

theorem close_comment_limit:
  assumes "add_all (ZipWriter w cfg) calls = (None, this)"
  shows "(length c = 65535 \<longrightarrow>
            (\<exists>cd this'. close this (Some c) =
               Inr (data (writer this) @ cd
                      @ end_of_central_directory (length calls) (length cd) (offset this) 65535
                      @ c, this'))) \<and>
         (length c = 65536 \<longrightarrow>
            (\<exists>cd this'. close this (Some c) =
               Inr (data (writer this) @ cd
                      @ end_of_central_directory (length calls) (length cd) (offset this) 0
                      @ c, this'))) \<and>
         (65536 < length c \<longrightarrow> close this (Some c) = Inl ERR_ZIP_FILE_COMMENT)"
proof -
  from add_all_ZipWriter [OF assms] obtain es where
    c: "complete this es" and l: "list_all2 entry_of_call calls es"
    by blast
  have len: "length es = length calls"
    using l by (simp add: list_all2_lengthD)
  have w: "end_of_central_directory n dl ofs 65536 = end_of_central_directory n dl ofs 0"
    for n dl ofs
    by (simp add: end_of_central_directory_def le16_def)
  show ?thesis
    by (auto simp: close_complete [OF c] Let_def len w)
qed

theorem close_comment_limit_witness:
  "let this = snd (add_all (ZipWriter Uint8ArrayWriter store_pipeline) example_calls)
   in fst (add_all (ZipWriter Uint8ArrayWriter store_pipeline) example_calls) = None \<and>
      (\<exists>cd this'. close this (Some (replicate 65536 0x41)) =
         Inr (data (writer this) @ cd
                @ end_of_central_directory 2 (length cd) (offset this) 0
                @ replicate 65536 0x41, this')) \<and>
      (\<exists>cd this'. close this (Some (replicate 65535 0x41)) =
         Inr (data (writer this) @ cd
                @ end_of_central_directory 2 (length cd) (offset this) 65535
                @ replicate 65535 0x41, this')) \<and>
      close this (Some (replicate 65537 0x41)) = Inl ERR_ZIP_FILE_COMMENT"
proof -
  define this where
    "this = snd (add_all (ZipWriter Uint8ArrayWriter store_pipeline) example_calls)"
  have h: "add_all (ZipWriter Uint8ArrayWriter store_pipeline) example_calls = (None, this)"
    unfolding this_def by (rule example_calls_succeed)
  have l: "length example_calls = 2"
    by (simp add: example_calls_def)
  from close_comment_limit [OF h, of "replicate 65536 0x41"]
    close_comment_limit [OF h, of "replicate 65535 0x41"]
    close_comment_limit [OF h, of "replicate 65537 0x41"] h
  show ?thesis
    unfolding Let_def this_def [symmetric] l
    by simp
qed

text \<open>
  C2. If the normalized name (trimmed, a \<open>/\<close> appended for a directory) is already a key
  of the entry collection, \<open>add\<close> fails with the duplicate-name error; no byte has been
  written to the sink, and the collection, hence its number of entries, and the running
  offset are as before the call.
\<close>

theorem add_duplicate_name:
  assumes "map_has (files this) (normalize_name name opts)"
  shows "fst (add this name rd opts now) = Some ERR_DUPLICATED_NAME \<and>
         files (snd (add this name rd opts now)) = files this \<and>
         length (files (snd (add this name rd opts now))) = length (files this) \<and>
         data (writer (snd (add this name rd opts now))) = data (writer this) \<and>
         offset (snd (add this name rd opts now)) = offset this"
  using assms by (simp add: add_eq Let_def split: prod.split)

theorem add_duplicate_name_witness:
  "let this = snd (add (ZipWriter Uint8ArrayWriter store_pipeline) (str ''a.txt'') None
                    no_options example_date)
   in map fst (files this) = [str ''a.txt''] \<and>
      fst (add this (str '' a.txt '') (Some example_reader) no_options example_date)
        = Some ERR_DUPLICATED_NAME \<and>
      length (files (snd (add this (str '' a.txt '') (Some example_reader) no_options
                            example_date))) = 1"
proof -
  define this where "this = snd (add (ZipWriter Uint8ArrayWriter store_pipeline) (str ''a.txt'')
                                   None no_options example_date)"
  have f: "map fst (files this) = [str ''a.txt'']"
    unfolding this_def by (rule files_example_add)
  then have l: "length (files this) = 1"
    by (metis length_map length_Cons list.size(3) One_nat_def)
  have h: "map_has (files this) (normalize_name (str '' a.txt '') no_options)"
    by (simp add: map_has_def f normalize_a_txt)
  from add_duplicate_name [OF h, of "Some example_reader" example_date] f l show ?thesis
    unfolding this_def [symmetric] Let_def by simp
qed

text \<open>
  C3. A successful \<open>add\<close> appends one record to the entry collection and leaves the
  others as they are; the offset of the new record is the running offset before the
  call, and the running offset advances by the length of the record. So after a sequence
  of successful calls on a new writer the first offset is 0, the offset of entry \<open>i+1\<close>
  is the offset of entry \<open>i\<close> plus the length of entry \<open>i\<close>, and the running offset is
  the sum of the lengths. Whenever \<open>close\<close> returns, the 32 bit field at offset 16 of the
  trailer holds the running offset (modulo \<open>2^32\<close>), little-endian.
\<close>

theorem offsets_chain:
  assumes "add_all (ZipWriter w cfg) calls = (None, this)"
  shows "\<exists>es. map snd (files this) = map Some es \<and> length es = length calls \<and>
              (\<forall>i. Suc i < length es \<longrightarrow>
                 (\<exists>n. fe_offset (es ! i) = Some n \<and>
                      fe_offset (es ! Suc i) = Some (n + fe_length (es ! i)))) \<and>
              (es \<noteq> [] \<longrightarrow> fe_offset (hd es) = Some 0) \<and>
              offset this = sum_list (map fe_length es) \<and>
              (\<forall>name rd opts now this'.
                 add this name rd opts now = (None, this') \<longrightarrow>
                 (\<exists>e. files this' = files this @ [(normalize_name name opts, Some e)] \<and>
                      fe_offset e = Some (offset this) \<and>
                      offset this' = offset this + fe_length e)) \<and>
              (\<forall>cmt out this'.
                 close this cmt = Inr (out, this') \<longrightarrow>
                 (\<exists>cd c. out = data (writer this) @ cd @ be32 0x504b0506 @ replicate 4 0
                                @ le16 (int (length es)) @ le16 (int (length es))
                                @ le32 (int (length cd)) @ le32 (int (offset this))
                                @ le16 (int (length c)) @ c \<and>
                         getUint32 out (length (data (writer this)) + length cd + 16)
                           = int (offset this) mod 4294967296))"
proof -
  from add_all_ZipWriter [OF assms] obtain es where
    c: "complete this es" and l: "list_all2 entry_of_call calls es"
    by blast
  have len: "length es = length calls"
    using l by (simp add: list_all2_lengthD)
  have m: "map snd (files this) = map Some es" and ch: "chained 0 es (offset this)"
    using c by (simp_all add: complete_def)
  have 1: "\<exists>n. fe_offset (es ! i) = Some n \<and>
               fe_offset (es ! Suc i) = Some (n + fe_length (es ! i))"
    if "Suc i < length es" for i
    using chained_Suc [OF ch that] .
  have 2: "fe_offset (hd es) = Some 0" if "es \<noteq> []"
    using ch that by (cases es) simp_all
  have 3: "offset this = sum_list (map fe_length es)"
    using chained_sum [OF ch] by simp
  have 4: "\<exists>e. files this' = files this @ [(normalize_name name opts, Some e)] \<and>
                fe_offset e = Some (offset this) \<and>
                offset this' = offset this + fe_length e"
    if a: "add this name rd opts now = (None, this')" for name rd opts now this'
  proof -
    from add_None [OF a] obtain e where
      "files this' = files this @ [(normalize_name name opts,
                                    Some (e\<lparr>fe_offset := Some (offset this)\<rparr>))]"
      "offset this' = offset this + fe_length e"
      by blast
    then show ?thesis
      by (intro exI [of _ "e\<lparr>fe_offset := Some (offset this)\<rparr>"]) simp
  qed
  have 5: "\<exists>cd c. out = data (writer this) @ cd @ be32 0x504b0506 @ replicate 4 0
                                @ le16 (int (length es)) @ le16 (int (length es))
                                @ le32 (int (length cd)) @ le32 (int (offset this))
                                @ le16 (int (length c)) @ c \<and>
                   getUint32 out (length (data (writer this)) + length cd + 16)
                     = int (offset this) mod 4294967296"
    if cl: "close this cmt = Inr (out, this')" for cmt out this'
  proof -
    define c where "c = (case cmt of Some c \<Rightarrow> c | None \<Rightarrow> [])"
    define cd where "cd = concat (map central_record es)"
    let ?A = "data (writer this) @ cd @ be32 0x504b0506 @ replicate 4 0
                @ le16 (int (length es)) @ le16 (int (length es)) @ le32 (int (length cd))"
    let ?B = "le16 (int (length c)) @ c"
    from cl have out: "out = ?A @ le32 (int (offset this)) @ ?B"
      by (simp add: close_complete [OF c] Let_def end_of_central_directory_def
          c_def [symmetric] cd_def [symmetric] split: if_splits)
    have "getUint32 (?A @ le32 (int (offset this)) @ ?B)
            (length (data (writer this)) + length cd + 16) = int (offset this) mod 4294967296"
      by (rule getUint32_le32) simp
    with out show ?thesis
      by (intro exI [of _ cd] exI [of _ c]) simp
  qed
  from m len 1 2 3 4 5 show ?thesis
    by blast
qed

theorem offsets_chain_witness:
  "let this1 = snd (add (ZipWriter Uint8ArrayWriter store_pipeline) (str ''a.txt'')
                     (Some example_reader) no_options example_date);
       this = snd (add_all (ZipWriter Uint8ArrayWriter store_pipeline) example_calls)
   in fst (add_all (ZipWriter Uint8ArrayWriter store_pipeline) example_calls) = None \<and>
      (\<exists>e1 e2. map snd (files this) = [Some e1, Some e2] \<and>
               fe_offset e1 = Some 0 \<and> fe_length e1 = 54 \<and>
               fe_offset e2 = Some 54 \<and> fe_length e2 = 51 \<and> offset this = 105) \<and>
      (\<exists>e. add this1 (str ''docs'') None (no_options\<lparr>directory := True\<rparr>) example_date
              = (None, this) \<and>
           files this = files this1 @ [(str ''docs/'', Some e)] \<and>
           fe_offset e = Some (offset this1) \<and> offset this = offset this1 + fe_length e) \<and>
      (\<exists>out this' cd.
         close this None = Inr (out, this') \<and>
         getUint32 out (length (data (writer this)) + length (cd :: byte list) + 16) = 105)"
proof -
  let ?W = "ZipWriter Uint8ArrayWriter store_pipeline"
  let ?d = "no_options\<lparr>directory := True\<rparr>"
  define this1 where
    "this1 = snd (add ?W (str ''a.txt'') (Some example_reader) no_options example_date)"
  define this where "this = snd (add_all ?W example_calls)"
  have h1: "add_all ?W [(str ''a.txt'', Some example_reader, no_options, example_date)]
              = (None, this1)"
    unfolding this1_def by (rule example_first_call)
  have h: "add_all ?W example_calls = (None, this)"
    unfolding this_def by (rule example_calls_succeed)
  have "add_all this1 [(str ''docs'', None, ?d, example_date)] = (None, this)"
    using h unfolding example_calls_def this1_def
    by (simp only: add_all_Cons_None [OF example_first_add])
  then have step: "add this1 (str ''docs'') None ?d example_date = (None, this)"
    by (auto split: prod.splits option.splits)
  have n: "map (map_option (\<lambda>e. (fe_offset e, fe_length e)) \<circ> snd) (files this)
             = [Some (Some 0, 54), Some (Some 54, 51)]" "offset this = 105"
    unfolding this_def using example_calls_lengths [of Uint8ArrayWriter] by simp_all
  from offsets_chain [OF h] obtain es where
    es: "map snd (files this) = map Some es" "length es = length example_calls"
    and st: "\<forall>i. Suc i < length es \<longrightarrow>
                 (\<exists>n. fe_offset (es ! i) = Some n \<and>
                      fe_offset (es ! Suc i) = Some (n + fe_length (es ! i)))"
    and hd: "es \<noteq> [] \<longrightarrow> fe_offset (hd es) = Some 0"
    and su: "offset this = sum_list (map fe_length es)"
    and cl: "\<forall>cmt out this'.
                 close this cmt = Inr (out, this') \<longrightarrow>
                 (\<exists>cd c. out = data (writer this) @ cd @ be32 0x504b0506 @ replicate 4 0
                                @ le16 (int (length es)) @ le16 (int (length es))
                                @ le32 (int (length cd)) @ le32 (int (offset this))
                                @ le16 (int (length c)) @ c \<and>
                         getUint32 out (length (data (writer this)) + length cd + 16)
                           = int (offset this) mod 4294967296)"
    by blast
  have l: "length example_calls = 2"
    by (simp add: example_calls_def)
  from es(2) l obtain e1 e2 where e: "es = [e1, e2]"
    by (cases es; cases "tl es") auto
  from st [rule_format, of 0] hd
  have o: "fe_offset e1 = Some 0" "fe_offset e2 = Some (fe_length e1)"
    by (auto simp: e)
  from n(1) es(1) have len: "fe_length e1 = 54" "fe_length e2 = 51"
    by (auto simp: e)
  have A: "\<exists>e1 e2. map snd (files this) = [Some e1, Some e2] \<and>
               fe_offset e1 = Some 0 \<and> fe_length e1 = 54 \<and>
               fe_offset e2 = Some 54 \<and> fe_length e2 = 51 \<and> offset this = 105"
    using es(1) o len n(2) by (auto simp: e)
  from offsets_chain [OF h1] have
    stp: "\<forall>name rd opts now this'.
                 add this1 name rd opts now = (None, this') \<longrightarrow>
                 (\<exists>e. files this' = files this1 @ [(normalize_name name opts, Some e)] \<and>
                      fe_offset e = Some (offset this1) \<and>
                      offset this' = offset this1 + fe_length e)"
    by blast
  from stp [rule_format, OF step] step
  have B: "\<exists>e. add this1 (str ''docs'') None ?d example_date = (None, this) \<and>
           files this = files this1 @ [(str ''docs/'', Some e)] \<and>
           fe_offset e = Some (offset this1) \<and> offset this = offset this1 + fe_length e"
    by (simp add: normalize_docs)
  from add_all_ZipWriter [OF h] obtain es' where "complete this es'"
    by blast
  from close_complete [OF this, of None] obtain out this' where
    c: "close this None = Inr (out, this')"
    by (simp add: Let_def)
  from cl [rule_format, OF c] obtain cd :: "byte list" where
    "getUint32 out (length (data (writer this)) + length cd + 16)
       = int (offset this) mod 4294967296"
    by blast
  then have "getUint32 out (length (data (writer this)) + length cd + 16) = 105"
    by (simp add: n(2))
  with c have C: "\<exists>out this' cd.
         close this None = Inr (out, this') \<and>
         getUint32 out (length (data (writer this)) + length (cd :: byte list) + 16) = 105"
    by blast
  from h A B C show ?thesis
    unfolding Let_def this1_def [symmetric] this_def [symmetric] by simp
qed

text \<open>
  C4. For every timestamp, the two bytes the encoder writes at offset 6 of the header are
  the little-endian 16 bit value of \<open>((hour<<6 | minute)<<5) | (second/2)\<close>, and the two
  bytes at offset 8 that of \<open>(((year-1980)<<4 | month)<<5) | day\<close> with the month counted
  from 1: read back, the fields are the formulas modulo \<open>2^16\<close>, and the formulas
  themselves for every time of day and every date from 1980 to 2107. The same four bytes
  stand at offset 10 of the local header block in the sink.
\<close>

theorem dos_time_and_date_fields:
  assumes "createFileEntry name rd w cfg opts now = (Inr e, w')"
  shows "let d = entry_date opts now;
             t = documented_time (getHours d) (getMinutes d) (getSeconds d);
             dt = documented_date (getFullYear d) (getMonth d + 1) (getDate d)
         in take 2 (drop 6 (headerArray e)) = le16 t \<and>
            take 2 (drop 8 (headerArray e)) = le16 dt \<and>
            getUint16 (headerArray e) 6 = t mod 65536 \<and>
            getUint16 (headerArray e) 8 = dt mod 65536 \<and>
            (getHours d < 24 \<and> getMinutes d < 60 \<and> getSeconds d < 60 \<longrightarrow>
               getUint16 (headerArray e) 6 = t) \<and>
            (1980 \<le> getFullYear d \<and> getFullYear d \<le> 2107 \<and> getMonth d < 12 \<and> getDate d \<le> 31 \<longrightarrow>
               getUint16 (headerArray e) 8 = dt) \<and>
            take 4 (drop (length (data w) + 10) (data w')) = le16 t @ le16 dt"
proof -
  define d where "d = entry_date opts now"
  define t where "t = documented_time (getHours d) (getMinutes d) (getSeconds d)"
  define dt where "dt = documented_date (getFullYear d) (getMonth d + 1) (getDate d)"
  have t: "le16 (dos_time d) = le16 t" and dt: "le16 (dos_date d) = le16 dt"
    unfolding t_def dt_def
    by (rule le16_cong, rule dos_time_documented) (rule le16_cong, rule dos_date_documented)
  from createFileEntry_Inr_layout [OF assms] obtain p written where
    h0: "headerArray e = entry_header opts d (length (filename e)) (length (fe_extraField e)) p"
    and w0: "data w' = data w @ be32 0x504b0304
               @ entry_header opts d (length (filename e)) (length (fe_extraField e)) None
               @ filename e @ fe_extraField e @ written
               @ be32 0x504b0708 @ descriptor_fields p (encrypted opts)"
    unfolding d_def by blast
  define fl el where "fl = length (filename e)" and "el = length (fe_extraField e)"
  have h: "headerArray e = header_start opts @ le16 t @ le16 dt
          @ descriptor_fields p (encrypted opts) @ le16 (int fl) @ le16 (int el)"
    by (simp add: h0 entry_header_def t dt fl_def el_def)
  obtain rest where w': "data w' = data w @ be32 0x504b0304
          @ (header_start opts @ le16 t @ le16 dt @ rest)"
    by (simp add: w0 entry_header_def t dt)
  have 1: "take 2 (drop 6 (headerArray e)) = le16 t"
    and 2: "take 2 (drop 8 (headerArray e)) = le16 dt"
    by (simp_all add: h)
  have 3: "getUint16 (headerArray e) 6 = t mod 65536"
    using getUint16_le16 [of "header_start opts" 6 t] by (simp add: h)
  have 4: "getUint16 (headerArray e) 8 = dt mod 65536"
    using getUint16_le16 [of "header_start opts @ le16 t" 8 dt] by (simp add: h)
  have 5: "getUint16 (headerArray e) 6 = t"
    if "getHours d < 24 \<and> getMinutes d < 60 \<and> getSeconds d < 60"
    using that documented_time_range [of "getHours d" "getMinutes d" "getSeconds d"]
    by (simp add: 3 t_def)
  have 6: "getUint16 (headerArray e) 8 = dt"
    if "1980 \<le> getFullYear d \<and> getFullYear d \<le> 2107 \<and> getMonth d < 12 \<and> getDate d \<le> 31"
    using that documented_date_range [of "getFullYear d" "getMonth d + 1" "getDate d"]
    by (simp add: 4 dt_def)
  have 7: "take 4 (drop (length (data w) + 10) (data w')) = le16 t @ le16 dt"
    by (simp add: w')
  show ?thesis
    unfolding Let_def d_def [symmetric] t_def [symmetric] dt_def [symmetric]
    using 1 2 3 4 5 6 7 by blast
qed

theorem dos_time_and_date_fields_witness:
  "let e = projr (fst (createFileEntry (str ''a.txt'') None Uint8ArrayWriter store_pipeline
                        no_options example_date))
   in documented_time 10 30 45 = 21462 \<and> documented_date 2023 6 15 = 22223 \<and>
      getUint16 (headerArray e) 6 = 21462 \<and> getUint16 (headerArray e) 8 = 22223 \<and>
      take 2 (drop 6 (headerArray e)) = [0xD6, 0x53] \<and>
      take 2 (drop 8 (headerArray e)) = [0xCF, 0x56]"
proof -
  let ?r = "createFileEntry (str ''a.txt'') None Uint8ArrayWriter store_pipeline
              no_options example_date"
  have enc: "encodeUTF8 (str ''a.txt'') = Inr (str ''a.txt'')"
    by (simp add: str_def utf8_def)
  have h: "?r = (Inr (projr (fst ?r)), snd ?r)"
    by (simp add: createFileEntry_eq enc comment_text_def no_options_def Let_def)
  have v: "documented_time 10 30 45 = 21462" "documented_date 2023 6 15 = 22223"
    by (simp_all add: documented_time_def documented_date_def)
  have d: "entry_date no_options example_date = example_date"
    by (simp add: entry_date_def no_options_def)
  have f: "getHours example_date = 10" "getMinutes example_date = 30"
    "getSeconds example_date = 45" "getFullYear example_date = 2023"
    "getMonth example_date + 1 = 6" "getDate example_date = 15"
    by (simp_all add: example_date_def)
  have b: "le16 21462 = [0xD6, 0x53]" "le16 22223 = [0xCF, 0x56]"
    by (simp_all add: le16_def)
  from dos_time_and_date_fields [OF h]
  have "take 2 (drop 6 (headerArray (projr (fst ?r)))) = [0xD6, 0x53]"
    and "take 2 (drop 8 (headerArray (projr (fst ?r)))) = [0xCF, 0x56]"
    and "getUint16 (headerArray (projr (fst ?r))) 6 = 21462 mod 65536"
    and "getUint16 (headerArray (projr (fst ?r))) 8 = 22223 mod 65536"
    unfolding Let_def d f v b by blast+
  then show ?thesis
    unfolding Let_def v by simp
qed

text \<open>
  C5, as stated, fails: for an encrypted entry with content the compressed length and the
  original size are written to the footer. With the password \<open>pw\<close> and a content source
  of three bytes, stored as they are, the last 16 bytes written are the signature, a
  checksum of zero, and twice the length 3.
\<close>

theorem footer_encrypted_counterexample:
  "let opts = no_options\<lparr>password := Some (str ''pw'')\<rparr>;
       w = snd (createFileEntry (str ''a.txt'') (Some example_reader) Uint8ArrayWriter
                  store_pipeline opts example_date)
   in encrypted opts \<and>
      drop (length (data w) - 16) (data w) =
        [0x50, 0x4B, 0x07, 0x08, 0, 0, 0, 0, 3, 0, 0, 0, 3, 0, 0, 0]"
proof -
  define opts where "opts = no_options\<lparr>password := Some (str ''pw'')\<rparr>"
  have e: "encrypted opts"
    by (simp add: opts_def encrypted_def str_def)
  have c: "comment_text opts = []"
    by (simp add: opts_def comment_text_def no_options_def)
  define w where "w = snd (createFileEntry (str ''a.txt'') (Some example_reader) Uint8ArrayWriter
                  store_pipeline opts example_date)"
  define footer where "footer = be32 0x504b0708 @ descriptor_fields
      (Some (example_reader, \<lparr>result_length = length (reader_content example_reader),
                               signature = Some 0x12345678\<rparr>)) True"
  have "\<exists>A. data w = A @ footer"
    unfolding w_def footer_def
    by (simp add: createFileEntry_eq encodeUTF8_a_txt c e Let_def store_pipeline_def
        Uint8ArrayWriter_def)
  then obtain A where d: "data w = A @ footer" ..
  have f: "footer = [0x50, 0x4B, 0x07, 0x08, 0, 0, 0, 0, 3, 0, 0, 0, 3, 0, 0, 0]"
    by (simp add: footer_def descriptor_fields_def be32_def le32_def example_reader_def replicate_4)
  have "drop (length (data w) - 16) (data w) = footer"
    unfolding d by (simp add: f)
  with e f show ?thesis
    unfolding Let_def opts_def [symmetric] w_def [symmetric] by simp
qed

text \<open>
  C5, amended. For every entry the encoder writes, last, a 16 byte footer that begins with
  the 4 byte descriptor signature. Without a content source the other 12 bytes are zero.
  With a content source the compressed length and the original size are filled in
  (little-endian, 32 bit), whether or not the entry is encrypted; the checksum is filled
  in exactly when the entry is not encrypted and the pipeline returned a checksum, and is
  left zero otherwise. The same 12 bytes stand at offset 10 of the header the entry record
  keeps.
\<close>

theorem footer_fields:
  assumes "createFileEntry name rd w cfg opts now = (Inr e, w')"
  shows "\<exists>body footer.
           data w' = data w @ body @ footer \<and> length footer = 16 \<and>
           take 4 footer = [0x50, 0x4B, 0x07, 0x08] \<and>
           take 12 (drop 10 (headerArray e)) = drop 4 footer \<and>
           (case rd of
              None \<Rightarrow> drop 4 footer = replicate 12 0
            | Some r \<Rightarrow>
                \<exists>res written.
                  cfg (createCodec_options opts) r = (Inr res, written) \<and>
                  take 4 (drop 4 footer) =
                    (case signature res of
                       Some sg \<Rightarrow> if encrypted opts then replicate 4 0 else le32 sg
                     | None \<Rightarrow> replicate 4 0) \<and>
                  take 4 (drop 8 footer) = le32 (int (result_length res)) \<and>
                  drop 12 footer = le32 (int (reader_size r)))"
proof -
  let ?fl = "length (filename e)" and ?el = "length (fe_extraField e)"
  from createFileEntry_Inr_layout [OF assms] obtain p written where
    rd: "case rd of
           None \<Rightarrow> p = None \<and> written = []
         | Some r \<Rightarrow> \<exists>res. cfg (createCodec_options opts) r = (Inr res, written) \<and>
                           p = Some (r, res)"
    and h: "headerArray e = entry_header opts (entry_date opts now) ?fl ?el p"
    and d: "data w' = data w @ be32 0x504b0304
                       @ entry_header opts (entry_date opts now) ?fl ?el None
                       @ filename e @ fe_extraField e @ written
                       @ be32 0x504b0708 @ descriptor_fields p (encrypted opts)"
    by blast
  let ?body = "be32 0x504b0304 @ entry_header opts (entry_date opts now) ?fl ?el None
                 @ filename e @ fe_extraField e @ written"
  let ?footer = "be32 0x504b0708 @ descriptor_fields p (encrypted opts)"
  have 1: "data w' = data w @ ?body @ ?footer"
    by (simp add: d)
  have 2: "length ?footer = 16"
    by simp
  have 3: "take 4 ?footer = [0x50, 0x4B, 0x07, 0x08]"
    by (simp add: be32_def le32_def)
  have 4: "take 12 (drop 10 (headerArray e)) = drop 4 ?footer"
    by (simp add: h entry_header_def)
  have 5: "case rd of
              None \<Rightarrow> drop 4 ?footer = replicate 12 0
            | Some r \<Rightarrow>
                \<exists>res written.
                  cfg (createCodec_options opts) r = (Inr res, written) \<and>
                  take 4 (drop 4 ?footer) =
                    (case signature res of
                       Some sg \<Rightarrow> if encrypted opts then replicate 4 0 else le32 sg
                     | None \<Rightarrow> replicate 4 0) \<and>
                  take 4 (drop 8 ?footer) = le32 (int (result_length res)) \<and>
                  drop 12 ?footer = le32 (int (reader_size r))"
  proof (cases rd)
    case None
    with rd show ?thesis
      by (simp add: descriptor_fields_def)
  next
    case (Some r)
    with rd obtain res where c: "cfg (createCodec_options opts) r = (Inr res, written)"
      and p: "p = Some (r, res)"
      by auto
    have l: "length (case signature res of
                       Some sg \<Rightarrow> if encrypted opts then replicate 4 0 else le32 sg
                     | None \<Rightarrow> replicate 4 (0::byte)) = 4"
      by (simp split: option.split)
    show ?thesis
      using c l by (simp add: Some p descriptor_fields_def)
  qed
  from 1 2 3 4 5 show ?thesis
    by blast
qed

theorem footer_fields_witness:
  "let opts = no_options\<lparr>password := Some (str ''pw'')\<rparr>;
       r = createFileEntry (str ''a.txt'') (Some example_reader) Uint8ArrayWriter
             store_pipeline opts example_date
   in (\<exists>e. fst r = Inr e) \<and>
      (\<exists>body footer.
         data (snd r) = body @ footer \<and> length footer = 16 \<and>
         take 4 footer = [0x50, 0x4B, 0x07, 0x08] \<and>
         take 4 (drop 4 footer) = [0, 0, 0, 0] \<and>
         take 4 (drop 8 footer) = [3, 0, 0, 0] \<and>
         drop 12 footer = [3, 0, 0, 0])"
proof -
  define opts where "opts = no_options\<lparr>password := Some (str ''pw'')\<rparr>"
  define r where "r = createFileEntry (str ''a.txt'') (Some example_reader) Uint8ArrayWriter
             store_pipeline opts example_date"
  have e: "encrypted opts"
    by (simp add: opts_def encrypted_def str_def)
  have c: "comment_text opts = []"
    by (simp add: opts_def comment_text_def no_options_def)
  have s: "\<exists>e. fst r = Inr e"
    unfolding r_def
    by (simp add: createFileEntry_eq encodeUTF8_a_txt c Let_def store_pipeline_def)
  then have h: "createFileEntry (str ''a.txt'') (Some example_reader) Uint8ArrayWriter
             store_pipeline opts example_date = (Inr (projr (fst r)), snd r)"
    unfolding r_def by (metis prod.collapse sum.sel(2))
  from footer_fields [OF h] obtain body footer res written where
    1: "data (snd r) = data Uint8ArrayWriter @ body @ footer" "length footer = 16"
      "take 4 footer = [0x50, 0x4B, 0x07, 0x08]"
    and 2: "store_pipeline (createCodec_options opts) example_reader = (Inr res, written)"
    and 3: "take 4 (drop 4 footer) =
                    (case signature res of
                       Some sg \<Rightarrow> if encrypted opts then replicate 4 0 else le32 sg
                     | None \<Rightarrow> replicate 4 0)"
      "take 4 (drop 8 footer) = le32 (int (result_length res))"
      "drop 12 footer = le32 (int (reader_size example_reader))"
    by auto
  from 2 have res: "result_length res = 3" "signature res = Some 0x12345678"
    by (auto simp: store_pipeline_def example_reader_def)
  have "data (snd r) = body @ footer \<and> length footer = 16 \<and>
         take 4 footer = [0x50, 0x4B, 0x07, 0x08] \<and>
         take 4 (drop 4 footer) = [0, 0, 0, 0] \<and>
         take 4 (drop 8 footer) = [3, 0, 0, 0] \<and>
         drop 12 footer = [3, 0, 0, 0]"
    using 1 3 e
    by (simp add: res Uint8ArrayWriter_def le32_def replicate_4 example_reader_def)
  with s show ?thesis
    unfolding Let_def opts_def [symmetric] r_def [symmetric] by blast
qed

text \<open>
  C6. Let the writer be one left by successful \<open>add\<close> calls, and let \<open>add\<close> be called with
  \<open>directory\<close> set and no content source, on a name that after trimming does not end in
  \<open>/\<close>, is not yet present with the \<open>/\<close> appended, and can be encoded (as can the comment).
  Then the call succeeds and stores the entry under the trimmed name with \<open>/\<close> appended;
  the length of the entry is that of the header block (30 bytes, the file name and the
  extra field) plus the 16 bytes of the footer, and this is what the sink grows by; and
  byte 38 of the entry's central directory record, the first byte of the external
  attributes, is \<open>0x10\<close>. \<open>close\<close> writes this record last in the central directory.
\<close>

theorem add_directory:
  assumes reach: "add_all (ZipWriter w cfg) calls = (None, this)"
    and dir: "directory opts"
    and slash: "trim name = [] \<or> last (trim name) \<noteq> 0x2F"
    and new: "\<not> map_has (files this) (trim name @ [0x2F])"
    and un: "encodeUTF8 (trim name @ [0x2F]) = Inr u"
    and uc: "encodeUTF8 (comment_text opts) = Inr v"
  shows "\<exists>e this'.
           add this name None opts now = (None, this') \<and>
           files this' = files this @ [(trim name @ [0x2F], Some e)] \<and>
           filename e = getBytes u \<and> fe_directory e \<and>
           fe_length e = (30 + length (filename e) + length (fe_extraField e)) + 16 \<and>
           length (data (writer this')) = length (data (writer this)) + fe_length e \<and>
           central_record e ! 38 = 0x10 \<and>
           (\<forall>cmt. length (case cmt of Some c \<Rightarrow> c | None \<Rightarrow> []) \<le> 65536 \<longrightarrow>
              (\<exists>es post t. map snd (files this) = map Some es \<and>
                 close this' cmt =
                   Inr (data (writer this') @ concat (map central_record es)
                          @ central_record e @ post, t)))"
proof -
  let ?nm = "trim name @ [0x2F]"
  have n: "normalize_name name opts = ?nm"
    using dir slash by (simp add: normalize_name_def Let_def)
  from add_all_ZipWriter [OF reach] obtain es where c: "complete this es"
    by blast
  have "fst (add this name None opts now) = None"
    by (rule add_succeeds [where un = u and uc = v]) (simp_all add: n new un uc)
  then obtain this' where a: "add this name None opts now = (None, this')"
    by (metis prod.collapse)
  from add_None [OF a] obtain e0 p where
    cfe: "createFileEntry ?nm None (init Uint8ArrayWriter) (config this) opts now = (Inr e0, p)"
    and f: "files this' = files this @ [(?nm, Some (e0\<lparr>fe_offset := Some (offset this)\<rparr>))]"
    and d: "data (writer this') = data (writer this) @ data p"
    unfolding n by blast
  let ?e = "e0\<lparr>fe_offset := Some (offset this)\<rparr>"
  from complete_add_entry [OF c a] f have c': "complete this' (es @ [?e])"
    unfolding n by auto
  have h: "length (headerArray ?e) = 26"
    using createFileEntry_Inr(1) [OF cfe] by simp
  have 1: "filename ?e = getBytes u" "fe_directory ?e"
    using createFileEntry_Inr(3,5) [OF cfe] un dir by simp_all
  from createFileEntry_Inr_layout [OF cfe]
  have 2: "fe_length ?e = (30 + length (filename ?e) + length (fe_extraField ?e)) + 16"
    and 3: "length (data p) = fe_length ?e"
    by (auto simp: init_def Uint8ArrayWriter_def)
  have 4: "central_record ?e ! 38 = 0x10"
    using central_record_attribute [OF h] 1(2) by simp
  have 5: "\<exists>es post t. map snd (files this) = map Some es \<and>
                 close this' cmt =
                   Inr (data (writer this') @ concat (map central_record es)
                          @ central_record ?e @ post, t)"
    if "length (case cmt of Some c \<Rightarrow> c | None \<Rightarrow> []) \<le> 65536" for cmt
  proof -
    have "map snd (files this) = map Some es"
      using c by (simp add: complete_def)
    moreover have "\<exists>post t. close this' cmt =
                   Inr (data (writer this') @ concat (map central_record es)
                          @ central_record ?e @ post, t)"
      using that by (simp add: close_complete [OF c'] Let_def)
    ultimately show ?thesis
      by blast
  qed
  from a f 1 2 3 4 5 d show ?thesis
    by (intro exI [of _ ?e] exI [of _ this']) simp
qed

theorem add_directory_witness:
  "let this = snd (add (ZipWriter Uint8ArrayWriter store_pipeline) (str ''a.txt'')
                    (Some example_reader) no_options example_date)
   in \<exists>e this'.
        add this (str ''docs'') None (no_options\<lparr>directory := True\<rparr>) example_date
          = (None, this') \<and>
        map fst (files this') = [str ''a.txt'', str ''docs/''] \<and>
        filename e = getBytes (str ''docs/'') \<and>
        fe_length e = 51 \<and>
        length (data (writer this')) = length (data (writer this)) + 51 \<and>
        central_record e ! 38 = 0x10 \<and>
        (\<exists>es post t. map snd (files this) = map Some es \<and> length es = 1 \<and>
           close this' None =
             Inr (data (writer this') @ concat (map central_record es)
                    @ central_record e @ post, t))"
proof -
  define this where "this = snd (add (ZipWriter Uint8ArrayWriter store_pipeline) (str ''a.txt'')
                    (Some example_reader) no_options example_date)"
  let ?d = "no_options\<lparr>directory := True\<rparr>"
  have reach: "add_all (ZipWriter Uint8ArrayWriter store_pipeline)
                 [(str ''a.txt'', Some example_reader, no_options, example_date)] = (None, this)"
    unfolding this_def by (rule example_first_call)
  have f: "map fst (files this) = [str ''a.txt'']"
    unfolding this_def by (rule example_first_files)
  have dir: "directory ?d"
    by simp
  have slash: "trim (str ''docs'') = [] \<or> last (trim (str ''docs'')) \<noteq> 0x2F"
    by (simp add: trim_docs) (simp add: str_def)
  have nm: "trim (str ''docs'') @ [0x2F] = str ''docs/''"
    by (simp add: trim_docs) (simp add: str_def)
  have new: "\<not> map_has (files this) (trim (str ''docs'') @ [0x2F])"
    unfolding nm by (simp add: map_has_def f) (simp add: str_def)
  have un: "encodeUTF8 (trim (str ''docs'') @ [0x2F]) = Inr (str ''docs/'')"
    unfolding nm by (rule encodeUTF8_docs)
  have uc: "encodeUTF8 (comment_text ?d) = Inr []"
    by (simp add: comment_text_def no_options_def)
  from add_directory [OF reach dir slash new un uc, of example_date] obtain e this' where
    a: "add this (str ''docs'') None ?d example_date = (None, this')"
    and 1: "files this' = files this @ [(trim (str ''docs'') @ [0x2F], Some e)]"
    and 2: "filename e = getBytes (str ''docs/'')" "fe_directory e"
      "fe_length e = (30 + length (filename e) + length (fe_extraField e)) + 16"
      "length (data (writer this')) = length (data (writer this)) + fe_length e"
      "central_record e ! 38 = 0x10"
    and 3: "\<forall>cmt. length (case cmt of Some c \<Rightarrow> c | None \<Rightarrow> []) \<le> 65536 \<longrightarrow>
              (\<exists>es post t. map snd (files this) = map Some es \<and>
                 close this' cmt =
                   Inr (data (writer this') @ concat (map central_record es)
                          @ central_record e @ post, t))"
    by blast
  from 3 [rule_format, of None] obtain es post t where
    4: "map snd (files this) = map Some es"
      "close this' None =
         Inr (data (writer this') @ concat (map central_record es) @ central_record e @ post, t)"
    by auto
  from 4(1) f have 5: "length es = 1"
    by (metis length_map length_Cons list.size(3) One_nat_def)
  have x: "fe_extraField e = []"
  proof -
    from add_None [OF a] 1 obtain e0 p where
      "createFileEntry (normalize_name (str ''docs'') ?d) None (init Uint8ArrayWriter)
         (config this) ?d example_date = (Inr e0, p)"
      "e = e0\<lparr>fe_offset := Some (offset this)\<rparr>"
      by auto
    with createFileEntry_Inr(4) [of _ None _ _ ?d example_date e0 p] show ?thesis
      by (simp add: entry_extraField_def encrypted_def no_options_def)
  qed
  have len: "fe_length e = 51"
    by (simp add: 2(3) 2(1) x getBytes_def str_def)
  from 4 5 have 6: "\<exists>es post t. map snd (files this) = map Some es \<and> length es = 1 \<and>
           close this' None =
             Inr (data (writer this') @ concat (map central_record es)
                    @ central_record e @ post, t)"
    by blast
  from a 1 2 len f 6 show ?thesis
    unfolding Let_def this_def [symmetric]
    by (intro exI [of _ e] exI [of _ this']) (simp add: nm)
qed

text \<open>
  C7. After a sequence of \<open>add\<close> calls that all succeed (their normalized names are then
  pairwise different), the entry collection holds one record per call, in the order of
  the calls, each under the normalized name of its call and with the file name, comment,
  directory flag and extra field of its call. \<open>close\<close> with a comment of at most 65536
  bytes succeeds and appends to the sink one central directory record per entry, in that
  order, then the trailer, whose two 16 bit count fields both hold the number of calls
  (as a 16 bit value: the number modulo \<open>2^16\<close>), then the comment.
\<close>

theorem close_central_directory:
  assumes "add_all (ZipWriter w cfg) calls = (None, this)"
  shows "\<exists>es. list_all2 entry_of_call calls es \<and> length es = length calls \<and>
              map snd (files this) = map Some es \<and>
              map fst (files this) =
                map (\<lambda>(name, rd, opts, now). normalize_name name opts) calls \<and>
              distinct (map fst (files this)) \<and>
              (\<forall>cmt. length (case cmt of Some c \<Rightarrow> c | None \<Rightarrow> []) \<le> 65536 \<longrightarrow>
                 (\<exists>this'. close this cmt =
                    Inr (let c = (case cmt of Some c \<Rightarrow> c | None \<Rightarrow> []);
                             cd = concat (map central_record es)
                         in data (writer this) @ cd @ be32 0x504b0506 @ replicate 4 0
                              @ le16 (int (length calls)) @ le16 (int (length calls))
                              @ le32 (int (length cd)) @ le32 (int (offset this))
                              @ le16 (int (length c)) @ c,
                         this'))) \<and>
              getUint16 (le16 (int (length calls))) 0 = int (length calls) mod 65536"
proof -
  from add_all_ZipWriter [OF assms] obtain es where
    c: "complete this es" and l: "list_all2 entry_of_call calls es"
    and k: "map fst (files this) = map (\<lambda>(name, rd, opts, now). normalize_name name opts) calls"
    by blast
  have len: "length es = length calls"
    using l by (simp add: list_all2_lengthD)
  have m: "map snd (files this) = map Some es"
    using c by (simp add: complete_def)
  have d: "distinct (map fst (files this))"
    using add_all_distinct [OF _ assms] by (simp add: ZipWriter_def)
  have cl: "\<exists>this'. close this cmt =
                    Inr (let c = (case cmt of Some c \<Rightarrow> c | None \<Rightarrow> []);
                             cd = concat (map central_record es)
                         in data (writer this) @ cd @ be32 0x504b0506 @ replicate 4 0
                              @ le16 (int (length calls)) @ le16 (int (length calls))
                              @ le32 (int (length cd)) @ le32 (int (offset this))
                              @ le16 (int (length c)) @ c,
                         this')"
    if "length (case cmt of Some c \<Rightarrow> c | None \<Rightarrow> []) \<le> 65536" for cmt
    using that
    by (simp add: close_complete [OF c] Let_def end_of_central_directory_def len)
  have g: "getUint16 (le16 (int (length calls))) 0 = int (length calls) mod 65536"
    using getUint16_le16 [of "[]" 0 "int (length calls)" "[]"] by simp
  from l len m k d cl g show ?thesis
    by blast
qed

theorem close_central_directory_witness:
  "let this = snd (add_all (ZipWriter Uint8ArrayWriter store_pipeline) example_calls)
   in fst (add_all (ZipWriter Uint8ArrayWriter store_pipeline) example_calls) = None \<and>
      map fst (files this) = [str ''a.txt'', str ''docs/''] \<and>
      (\<exists>es this'.
         length es = 2 \<and> map snd (files this) = map Some es \<and>
         close this None =
           Inr (data (writer this) @ concat (map central_record es)
                  @ [0x50, 0x4B, 0x05, 0x06, 0, 0, 0, 0, 2, 0, 2, 0]
                  @ le32 (int (length (concat (map central_record es))))
                  @ le32 (int (offset this)) @ [0, 0], this'))"
proof -
  define this where
    "this = snd (add_all (ZipWriter Uint8ArrayWriter store_pipeline) example_calls)"
  have h: "add_all (ZipWriter Uint8ArrayWriter store_pipeline) example_calls = (None, this)"
    unfolding this_def by (rule example_calls_succeed)
  have l: "length example_calls = 2"
    by (simp add: example_calls_def)
  from close_central_directory [OF h] obtain es where
    es: "length es = length example_calls" "map snd (files this) = map Some es"
      "map fst (files this) =
         map (\<lambda>(name, rd, opts, now). normalize_name name opts) example_calls"
    and cl: "\<forall>cmt. length (case cmt of Some c \<Rightarrow> c | None \<Rightarrow> []) \<le> 65536 \<longrightarrow>
                 (\<exists>this'. close this cmt =
                    Inr (let c = (case cmt of Some c \<Rightarrow> c | None \<Rightarrow> []);
                             cd = concat (map central_record es)
                         in data (writer this) @ cd @ be32 0x504b0506 @ replicate 4 0
                              @ le16 (int (length example_calls))
                              @ le16 (int (length example_calls))
                              @ le32 (int (length cd)) @ le32 (int (offset this))
                              @ le16 (int (length c)) @ c,
                         this'))"
    by blast
  from cl [rule_format, of None] obtain this' where
    "close this None =
       Inr (data (writer this) @ concat (map central_record es)
              @ [0x50, 0x4B, 0x05, 0x06, 0, 0, 0, 0, 2, 0, 2, 0]
              @ le32 (int (length (concat (map central_record es))))
              @ le32 (int (offset this)) @ [0, 0], this')"
    by (auto simp: Let_def l be32_def le32_def le16_def replicate_4)
  with es h show ?thesis
    unfolding Let_def this_def [symmetric]
    by (auto simp: l example_calls_names)
qed

text \<open>
  C8, as stated, fails: after an \<open>add\<close> whose pipeline raises, the keys of the entry
  collection are not the keys before the call. On an empty archive the failed call
  leaves the key \<open>a.txt\<close> behind, mapped to the placeholder.
\<close>

theorem add_failure_counterexample:
  "fst (add (ZipWriter Uint8ArrayWriter failing_pipeline) (str ''a.txt'') (Some example_reader)
          no_options example_date) = Some (PipelineError 1) \<and>
   map fst (files (ZipWriter Uint8ArrayWriter failing_pipeline)) = [] \<and>
   files (snd (add (ZipWriter Uint8ArrayWriter failing_pipeline) (str ''a.txt'')
                 (Some example_reader) no_options example_date)) = [(str ''a.txt'', None)]"
  by (simp add: add_eq Let_def normalize_a_txt ZipWriter_def createFileEntry_eq encodeUTF8_a_txt
      no_options_simps failing_pipeline_def split: prod.split)

text \<open>
  C8, amended. When the encoding of an entry fails (the name is not a duplicate and \<open>add\<close>
  raises), the reservation made at the start of the call is not removed: the collection
  is the one before the call followed by the normalized name, mapped to the placeholder.
  The running offset is unchanged; the name counts as present from then on, and \<open>close\<close>
  raises \<open>TypeError\<close> on the placeholder.
\<close>

theorem add_failure_keeps_reservation:
  assumes "\<not> map_has (files this) (normalize_name name opts)"
    and "add this name rd opts now = (Some err, this')"
  shows "files this' = files this @ [(normalize_name name opts, None)] \<and>
         map fst (files this') = map fst (files this) @ [normalize_name name opts] \<and>
         offset this' = offset this \<and>
         map_has (files this') (normalize_name name opts) \<and>
         close this' cmt = Inl TypeError"
proof -
  from add_Some [OF assms(2)] assms(1)
  have f: "files this' = files this @ [(normalize_name name opts, None)]"
    and o: "offset this' = offset this"
    by simp_all
  have "close this' cmt = Inl TypeError"
    by (rule close_placeholder) (simp add: f)
  with f o show ?thesis
    by simp
qed

theorem add_failure_keeps_reservation_witness:
  "let this = ZipWriter Uint8ArrayWriter failing_pipeline;
       this'  = snd (add this (str ''a.txt'') (Some example_reader) no_options example_date)
   in \<not> map_has (files this) (str ''a.txt'') \<and>
      fst (add this (str ''a.txt'') (Some example_reader) no_options example_date)
        = Some (PipelineError 1) \<and>
      files this' = [(str ''a.txt'', None)] \<and>
      close this' None = Inl TypeError"
proof -
  define this where "this = ZipWriter Uint8ArrayWriter failing_pipeline"
  define r where "r = add this (str ''a.txt'') (Some example_reader) no_options example_date"
  have h1: "\<not> map_has (files this) (normalize_name (str ''a.txt'') no_options)"
    by (simp add: this_def ZipWriter_def)
  have e: "fst r = Some (PipelineError 1)"
    unfolding r_def this_def
    by (simp add: add_eq Let_def normalize_a_txt ZipWriter_def createFileEntry_eq encodeUTF8_a_txt
      no_options_simps failing_pipeline_def split: prod.split)
  then have h2: "add this (str ''a.txt'') (Some example_reader) no_options example_date
               = (Some (PipelineError 1), snd r)"
    unfolding r_def by (metis prod.collapse)
  from add_failure_keeps_reservation [OF h1 h2, of None] h1 e show ?thesis
    unfolding Let_def this_def [symmetric] r_def [symmetric]
    by (simp add: normalize_a_txt this_def ZipWriter_def)
qed

text \<open>
  C9, as stated, fails for a content source on which the pipeline raises: the call without
  \<open>bufferedWrite\<close> has by then appended the local header block, and what the pipeline
  wrote, to the shared sink, and the call with \<open>bufferedWrite\<close> has appended nothing. With
  the pipeline that fails after one byte, on a new writer, the shared sink holds 36 bytes
  (30, the 5 of the name, and the one byte) after the direct call and none after the
  buffered call.
\<close>

theorem add_bufferedWrite_counterexample:
  "fst (add (ZipWriter Uint8ArrayWriter failing_pipeline) (str ''a.txt'') (Some example_reader)
          (no_options\<lparr>bufferedWrite := True\<rparr>) example_date) = Some (PipelineError 1) \<and>
   fst (add (ZipWriter Uint8ArrayWriter failing_pipeline) (str ''a.txt'') (Some example_reader)
          (no_options\<lparr>bufferedWrite := False\<rparr>) example_date) = Some (PipelineError 1) \<and>
   data (writer (snd (add (ZipWriter Uint8ArrayWriter failing_pipeline) (str ''a.txt'')
                        (Some example_reader) (no_options\<lparr>bufferedWrite := True\<rparr>)
                        example_date))) = [] \<and>
   length (data (writer (snd (add (ZipWriter Uint8ArrayWriter failing_pipeline) (str ''a.txt'')
                                (Some example_reader) (no_options\<lparr>bufferedWrite := False\<rparr>)
                                example_date)))) = 36"
proof -
  have n: "normalize_name (str ''a.txt'') (no_options\<lparr>bufferedWrite := b\<rparr>) = str ''a.txt''" for b
    by (simp add: normalize_name_bufferedWrite normalize_a_txt)
  have c: "comment_text (no_options\<lparr>bufferedWrite := b\<rparr>) = []"
    "entry_extraField (no_options\<lparr>bufferedWrite := b\<rparr>) = []" for b
    by (simp_all add: comment_text_def entry_extraField_def encrypted_def no_options_def)
  show ?thesis
    by (simp add: add_eq Let_def n c ZipWriter_def createFileEntry_eq encodeUTF8_a_txt
        failing_pipeline_def Uint8ArrayWriter_def init_def split: prod.split)
qed

text \<open>
  C9, amended. For every writer, name, content source and options for which \<open>add\<close>
  succeeds both with \<open>bufferedWrite\<close> set and without it, the two calls append exactly the
  same byte sequence to the shared sink and produce the same entry record (length, header
  bytes, offset), stored last in the entry collection under the normalized name; the
  running offset advances alike.
\<close>

theorem add_bufferedWrite_equivalent:
  assumes "add this name rd (opts\<lparr>bufferedWrite := True\<rparr>) now = (None, this1)"
    and "add this name rd (opts\<lparr>bufferedWrite := False\<rparr>) now = (None, this2)"
  shows "\<exists>bytes e.
           data (writer this1) = data (writer this) @ bytes \<and>
           data (writer this2) = data (writer this) @ bytes \<and>
           files this1 = files this @ [(normalize_name name opts, Some e)] \<and>
           files this2 = files this @ [(normalize_name name opts, Some e)] \<and>
           fe_offset e = Some (offset this) \<and>
           offset this1 = offset this + fe_length e \<and>
           offset this2 = offset this + fe_length e"
proof -
  let ?nm = "normalize_name name opts"
  from add_None [OF assms(1)] obtain e1 p1 where
    c1: "createFileEntry ?nm rd (init Uint8ArrayWriter) (config this) opts now = (Inr e1, p1)"
    and f1: "files this1 = files this @ [(?nm, Some (e1\<lparr>fe_offset := Some (offset this)\<rparr>))]"
    and o1: "offset this1 = offset this + fe_length e1"
    and d1: "data (writer this1) = data (writer this) @ data p1"
    unfolding normalize_name_bufferedWrite createFileEntry_bufferedWrite by blast
  from add_None [OF assms(2)] obtain e2 p2 where
    c2: "createFileEntry ?nm rd (init Uint8ArrayWriter) (config this) opts now = (Inr e2, p2)"
    and f2: "files this2 = files this @ [(?nm, Some (e2\<lparr>fe_offset := Some (offset this)\<rparr>))]"
    and o2: "offset this2 = offset this + fe_length e2"
    and d2: "data (writer this2) = data (writer this) @ data p2"
    unfolding normalize_name_bufferedWrite createFileEntry_bufferedWrite by blast
  from c1 c2 have eq: "e2 = e1" "p2 = p1"
    by simp_all
  show ?thesis
    using f1 f2 o1 o2 d1 d2 unfolding eq
    by (intro exI [of _ "data p1"] exI [of _ "e1\<lparr>fe_offset := Some (offset this)\<rparr>"]) simp
qed

theorem add_bufferedWrite_equivalent_witness:
  "let this = ZipWriter Uint8ArrayWriter store_pipeline;
       buffered = add this (str ''a.txt'') (Some example_reader)
                    (no_options\<lparr>bufferedWrite := True\<rparr>) example_date;
       direct = add this (str ''a.txt'') (Some example_reader)
                  (no_options\<lparr>bufferedWrite := False\<rparr>) example_date
   in fst buffered = None \<and> fst direct = None \<and>
      data (writer (snd buffered)) = data (writer (snd direct)) \<and>
      (\<exists>e. files (snd buffered) = [(str ''a.txt'', Some e)] \<and>
           files (snd direct) = [(str ''a.txt'', Some e)] \<and>
           fe_offset e = Some 0 \<and>
           offset (snd buffered) = fe_length e \<and> offset (snd direct) = fe_length e)"
proof -
  define this where "this = ZipWriter Uint8ArrayWriter store_pipeline"
  define buffered where "buffered = add this (str ''a.txt'') (Some example_reader)
                    (no_options\<lparr>bufferedWrite := True\<rparr>) example_date"
  define direct where "direct = add this (str ''a.txt'') (Some example_reader)
                  (no_options\<lparr>bufferedWrite := False\<rparr>) example_date"
  have b: "fst buffered = None"
    unfolding buffered_def this_def
    by (rule example_add_succeeds) (simp_all add: no_options_def)
  have d: "fst direct = None"
    unfolding direct_def this_def
    by (rule example_add_succeeds) (simp_all add: no_options_def)
  have hb: "add this (str ''a.txt'') (Some example_reader)
              (no_options\<lparr>bufferedWrite := True\<rparr>) example_date = (None, snd buffered)"
    using b unfolding buffered_def by (metis prod.collapse)
  have hd: "add this (str ''a.txt'') (Some example_reader)
              (no_options\<lparr>bufferedWrite := False\<rparr>) example_date = (None, snd direct)"
    using d unfolding direct_def by (metis prod.collapse)
  have t: "data (writer this) = []" "files this = []" "offset this = 0"
    by (simp_all add: this_def ZipWriter_def Uint8ArrayWriter_def)
  from add_bufferedWrite_equivalent [OF hb hd]
  have "data (writer (snd buffered)) = data (writer (snd direct)) \<and>
      (\<exists>e. files (snd buffered) = [(str ''a.txt'', Some e)] \<and>
           files (snd direct) = [(str ''a.txt'', Some e)] \<and>
           fe_offset e = Some 0 \<and>
           offset (snd buffered) = fe_length e \<and> offset (snd direct) = fe_length e)"
    by (auto simp: t normalize_a_txt)
  with b d show ?thesis
    unfolding Let_def this_def [symmetric] buffered_def [symmetric] direct_def [symmetric]
    by simp
qed

text \<open>
  C10. For an \<open>add\<close> call with a password that is not empty, the \<open>extraField\<close> option
  has no effect on the call: whatever the caller supplies, the outcome and the writer
  (the entry record and the bytes in the sink) are those of the call without it. The
  extra field of the entry is the fixed 11 byte AES extra field, which begins with the
  identifier \<open>0x9901\<close> (little-endian) and whose byte 9 is \<open>0x08\<close> when the entry is
  compressed (level not 0 and not a directory), \<open>0x00\<close> otherwise; these 11 bytes
  follow the file name in the local header block.
\<close>

theorem add_password_discards_extraField:
  assumes "password opts = Some p" and "p \<noteq> []"
  shows "add this name rd (opts\<lparr>extraField := x\<rparr>) now =
           add this name rd (opts\<lparr>extraField := None\<rparr>) now \<and>
         (\<forall>this'. add this name rd opts now = (None, this') \<longrightarrow>
            (\<exists>e. files this' = files this @ [(normalize_name name opts, Some e)] \<and>
                 fe_extraField e =
                   [0x01, 0x99, 0x07, 0x00, 0x02, 0x00, 0x41, 0x45, 0x03,
                    if level opts \<noteq> Some 0 \<and> \<not> directory opts then 0x08 else 0x00, 0x00] \<and>
                 take 11 (drop (length (data (writer this)) + 30 + length (filename e))
                            (data (writer this'))) = fe_extraField e))"
proof -
  have enc: "encrypted opts"
    using assms by (simp add: encrypted_def)
  have n: "normalize_name name (opts\<lparr>extraField := y\<rparr>) = normalize_name name opts" for y
    by (simp add: normalize_name_def)
  have bw: "bufferedWrite (opts\<lparr>extraField := y\<rparr>) = bufferedWrite opts" for y
    by simp
  have 1: "add this name rd (opts\<lparr>extraField := y\<rparr>) now = add this name rd opts now" for y
    unfolding add_eq n createFileEntry_extraField [OF enc] bw ..
  have 2: "\<exists>e. files this' = files this @ [(normalize_name name opts, Some e)] \<and>
                 fe_extraField e =
                   [0x01, 0x99, 0x07, 0x00, 0x02, 0x00, 0x41, 0x45, 0x03,
                    if level opts \<noteq> Some 0 \<and> \<not> directory opts then 0x08 else 0x00, 0x00] \<and>
                 take 11 (drop (length (data (writer this)) + 30 + length (filename e))
                            (data (writer this'))) = fe_extraField e"
    if a: "add this name rd opts now = (None, this')" for this'
  proof -
    from add_None [OF a] obtain e p where
      c: "createFileEntry (normalize_name name opts) rd (init Uint8ArrayWriter) (config this)
            opts now = (Inr e, p)"
      and f: "files this' = files this @ [(normalize_name name opts,
                                            Some (e\<lparr>fe_offset := Some (offset this)\<rparr>))]"
      and d: "data (writer this') = data (writer this) @ data p"
      by blast
    have x: "fe_extraField e = aes_extraField (compressed opts)"
      using createFileEntry_Inr(4) [OF c] enc by (simp add: entry_extraField_def)
    from createFileEntry_Inr_layout [OF c] obtain rest where
      p: "data p = be32 0x504b0304
            @ entry_header opts (entry_date opts now) (length (filename e))
                (length (fe_extraField e)) None
            @ filename e @ fe_extraField e @ rest"
      by (auto simp: init_def Uint8ArrayWriter_def)
    have l: "length (fe_extraField e) = 11"
      by (simp add: x aes_extraField_eq)
    show ?thesis
      by (intro exI [of _ "e\<lparr>fe_offset := Some (offset this)\<rparr>"])
        (simp add: f d p l, simp add: x aes_extraField_eq compressed_def)
  qed
  from 1 2 show ?thesis
    by simp
qed

theorem add_password_discards_extraField_witness:
  "let opts = no_options\<lparr>password := Some (str ''pw''), extraField := Some [0xDE, 0xAD]\<rparr>;
       this = ZipWriter Uint8ArrayWriter store_pipeline;
       r = add this (str ''a.txt'') (Some example_reader) opts example_date
   in password opts = Some (str ''pw'') \<and> str ''pw'' \<noteq> [] \<and> fst r = None \<and>
      add this (str ''a.txt'') (Some example_reader) (opts\<lparr>extraField := Some [0x01]\<rparr>)
          example_date
        = add this (str ''a.txt'') (Some example_reader) (opts\<lparr>extraField := None\<rparr>)
            example_date \<and>
      (\<exists>e. files (snd r) = [(str ''a.txt'', Some e)] \<and>
           fe_extraField e = [0x01, 0x99, 0x07, 0x00, 0x02, 0x00, 0x41, 0x45, 0x03, 0x08, 0x00])"
proof -
  define opts where
    "opts = no_options\<lparr>password := Some (str ''pw''), extraField := Some [0xDE, 0xAD]\<rparr>"
  define this where "this = ZipWriter Uint8ArrayWriter store_pipeline"
  define r where "r = add this (str ''a.txt'') (Some example_reader) opts example_date"
  have o: "password opts = Some (str ''pw'')" "\<not> directory opts" "comment opts = None"
    "level opts = None"
    by (simp_all add: opts_def no_options_def)
  have p: "str ''pw'' \<noteq> []"
    by (simp add: str_def)
  have n: "normalize_name (str ''a.txt'') opts = str ''a.txt''"
    using o by (simp add: normalize_name_def trim_a_txt)
  have s: "fst r = None"
    unfolding r_def this_def by (rule example_add_succeeds) (simp_all add: o)
  then have a: "add this (str ''a.txt'') (Some example_reader) opts example_date = (None, snd r)"
    unfolding r_def by (metis prod.collapse)
  from add_password_discards_extraField [OF o(1) p, of this "str ''a.txt''" "Some example_reader"
      "Some [0x01]" example_date] a
  have "add this (str ''a.txt'') (Some example_reader) (opts\<lparr>extraField := Some [0x01]\<rparr>)
          example_date
        = add this (str ''a.txt'') (Some example_reader) (opts\<lparr>extraField := None\<rparr>)
            example_date"
    and "\<exists>e. files (snd r) = [(str ''a.txt'', Some e)] \<and>
           fe_extraField e = [0x01, 0x99, 0x07, 0x00, 0x02, 0x00, 0x41, 0x45, 0x03, 0x08, 0x00]"
    by (auto simp: n o this_def ZipWriter_def)
  with o(1) p s show ?thesis
    unfolding Let_def opts_def [symmetric] this_def [symmetric] r_def [symmetric]
    by simp
qed

end
